theory Spec2Isabelle
  imports Main "HOL-Library.Sublist"
begin

section \<open>Failures\<close>

text \<open>
  A Go function either returns or stops with a run-time panic. The only operations of the
  lexer and the parser that can panic are the slice expressions of the lexer
  (\<open>l.input[start:l.position]\<close>). The parser's loops and its recursion are modelled with
  fuel: a call that runs out of fuel yields \<open>OutOfFuel\<close>, so that "the call returns" is a
  statement about the model (\<open>Inr\<close>), not an assumption.
\<close>

datatype failure = Panic | OutOfFuel

definition andThen :: "failure + 'a \<Rightarrow> ('a \<Rightarrow> failure + 'b) \<Rightarrow> failure + 'b" where
  "andThen m f = (case m of Inl e \<Rightarrow> Inl e | Inr x \<Rightarrow> f x)"

section \<open>Tokens (token.go)\<close>

text \<open>\<open>TokenType\<close> is a string type in the source; the token kinds are string constants.\<close>

type_synonym TokenType = string

named_theorems token_defs

definition ILLEGAL :: TokenType where [token_defs]: "ILLEGAL = ''ILLEGAL''"
definition EOF :: TokenType where [token_defs]: "EOF = ''EOF''"
definition IDENT :: TokenType where [token_defs]: "IDENT = ''IDENT''"
definition INT_T :: TokenType where [token_defs]: "INT_T = ''INT''"
definition STRING :: TokenType where [token_defs]: "STRING = ''STRING''"
definition FLOAT :: TokenType where [token_defs]: "FLOAT = ''FLOAT''"
definition BOOL :: TokenType where [token_defs]: "BOOL = ''BOOL''"
definition NIL :: TokenType where [token_defs]: "NIL = ''NIL''"
definition LPAREN :: TokenType where [token_defs]: "LPAREN = ''(''"
definition RPAREN :: TokenType where [token_defs]: "RPAREN = '')''"
definition LBRACE :: TokenType where [token_defs]: "LBRACE = ''{''"
definition RBRACE :: TokenType where [token_defs]: "RBRACE = ''}''"
definition COMMA :: TokenType where [token_defs]: "COMMA = '',''"
definition SEMICOLON :: TokenType where [token_defs]: "SEMICOLON = '';''"
definition ADD :: TokenType where [token_defs]: "ADD = ''+''"
definition SUB :: TokenType where [token_defs]: "SUB = ''-''"
definition MUL :: TokenType where [token_defs]: "MUL = ''*''"
definition DIV :: TokenType where [token_defs]: "DIV = ''/''"
definition ASSIGN :: TokenType where [token_defs]: "ASSIGN = ''=''"
definition EQ :: TokenType where [token_defs]: "EQ = ''==''"
definition NOT_EQ :: TokenType where [token_defs]: "NOT_EQ = ''!=''"
definition LT :: TokenType where [token_defs]: "LT = ''<''"
definition GT :: TokenType where [token_defs]: "GT = ''>''"
definition NOT :: TokenType where [token_defs]: "NOT = ''!''"
definition AND :: TokenType where [token_defs]: "AND = ''&&''"
definition OR :: TokenType where [token_defs]: "OR = ''||''"
definition LE :: TokenType where [token_defs]: "LE = ''<=''"
definition GE :: TokenType where [token_defs]: "GE = ''>=''"
definition MOD :: TokenType where [token_defs]: "MOD = ''%''"
definition IF :: TokenType where [token_defs]: "IF = ''if''"
definition ELSE :: TokenType where [token_defs]: "ELSE = ''else''"
definition WHILE :: TokenType where [token_defs]: "WHILE = ''while''"
definition FOR :: TokenType where [token_defs]: "FOR = ''for''"
definition LOOP :: TokenType where [token_defs]: "LOOP = ''loop''"
definition IN :: TokenType where [token_defs]: "IN = ''in''"
definition FUNC :: TokenType where [token_defs]: "FUNC = ''fn''"
definition RETURN :: TokenType where [token_defs]: "RETURN = ''return''"
definition TYPE_T :: TokenType where [token_defs]: "TYPE_T = ''TYPE''"
definition VOID :: TokenType where [token_defs]: "VOID = ''void''"
definition TYPEOF :: TokenType where [token_defs]: "TYPEOF = ''typeof''"
definition BREAK :: TokenType where [token_defs]: "BREAK = ''break''"
definition CONTINUE :: TokenType where [token_defs]: "CONTINUE = ''continue''"

record Token =
  Type :: TokenType
  Literal :: string

text \<open>The precedence constants: \<open>iota\<close> counts from 0 and the first value is discarded.\<close>

definition LOWEST :: int where "LOWEST = 1"
definition OR_PREC :: int where "OR_PREC = 2"
definition AND_PREC :: int where "AND_PREC = 3"
definition EQUALS :: int where "EQUALS = 4"
definition LESSGREATER :: int where "LESSGREATER = 5"
definition SUM_PREC :: int where "SUM_PREC = 6"
definition PRODUCT :: int where "PRODUCT = 7"
definition PREFIX :: int where "PREFIX = 8"
definition CALL :: int where "CALL = 9"

definition precedences :: "TokenType \<rightharpoonup> int" where
  "precedences = map_of
     [(OR, OR_PREC), (AND, AND_PREC), (EQ, EQUALS), (NOT_EQ, EQUALS),
      (LT, LESSGREATER), (GT, LESSGREATER), (LE, LESSGREATER), (GE, LESSGREATER),
      (ADD, SUM_PREC), (SUB, SUM_PREC), (MUL, PRODUCT), (DIV, PRODUCT), (MOD, PRODUCT),
      (LPAREN, CALL)]"

section \<open>Lexer (lexer.go)\<close>

text \<open>
  A Go string is a sequence of bytes, here a \<open>char list\<close> (an Isabelle \<open>char\<close> is one
  byte). The positions are Go \<open>int\<close>s that only count up from 0; they are natural numbers
  here, without the wrap-around at the width of \<open>int\<close>, which no input that fits in
  memory reaches during a parse.
\<close>

record Lexer =
  input :: string
  position :: nat
  readPosition :: nat
  ch :: char

definition readChar :: "Lexer \<Rightarrow> Lexer" where
  "readChar l =
     l\<lparr>ch := (if length (input l) \<le> readPosition l then CHR 0x00
              else input l ! readPosition l),
       position := readPosition l,
       readPosition := readPosition l + 1\<rparr>"

definition NewLexer :: "string \<Rightarrow> Lexer" where
  "NewLexer s = readChar \<lparr>input = s, position = 0, readPosition = 0, ch = CHR 0x00\<rparr>"

definition peekChar :: "Lexer \<Rightarrow> char" where
  "peekChar l =
     (if length (input l) \<le> readPosition l then CHR 0x00 else input l ! readPosition l)"

definition isWhitespace :: "char \<Rightarrow> bool" where
  "isWhitespace c \<longleftrightarrow> c = CHR '' '' \<or> c = CHR 0x09 \<or> c = CHR 0x0A \<or> c = CHR 0x0D"

function skipWhitespace :: "Lexer \<Rightarrow> Lexer" where
  "skipWhitespace l = (if isWhitespace (ch l) then skipWhitespace (readChar l) else l)"
  by pat_completeness auto
termination
  by (relation "measure (\<lambda>l. (length (input l) - readPosition l)
                              + (if isWhitespace (ch l) then 1 else 0))")
     (auto simp: readChar_def isWhitespace_def)

declare skipWhitespace.simps [simp del]

text \<open>
  \<open>unicode.IsLetter(rune(ch))\<close> of Go's standard library, on the 256 values a byte
  converts to (Latin-1): the upper- and lower-case letters and the two ordinal indicators.
\<close>

definition unicode_IsLetter :: "char \<Rightarrow> bool" where
  "unicode_IsLetter c =
     (let n = (of_char c :: nat) in
        (65 \<le> n \<and> n \<le> 90) \<or> (97 \<le> n \<and> n \<le> 122) \<or> n = 170 \<or> n = 181 \<or> n = 186 \<or>
        (192 \<le> n \<and> n \<le> 214) \<or> (216 \<le> n \<and> n \<le> 246) \<or> (248 \<le> n \<and> n \<le> 255))"

definition isLetter :: "char \<Rightarrow> bool" where
  "isLetter c \<longleftrightarrow> unicode_IsLetter c \<or> c = CHR ''_''"

definition isDigit :: "char \<Rightarrow> bool" where
  "isDigit c \<longleftrightarrow> (48::nat) \<le> of_char c \<and> of_char c \<le> (57::nat)"

text \<open>The slice expression \<open>s[a:b]\<close>: Go panics unless \<open>a \<le> b \<le> len(s)\<close>.\<close>

definition slice :: "string \<Rightarrow> nat \<Rightarrow> nat \<Rightarrow> failure + string" where
  "slice s a b = (if a \<le> b \<and> b \<le> length s then Inr (take (b - a) (drop a s)) else Inl Panic)"

text \<open>
  The conversion \<open>string(b)\<close> of a byte: the UTF-8 encoding of the code point \<open>b\<close>, one
  byte below 128 and two bytes from 128 on.
\<close>

definition string_of_byte :: "char \<Rightarrow> string" where
  "string_of_byte c =
     (let n = (of_char c :: nat) in
        if n < 128 then [c] else [char_of (192 + n div 64), char_of (128 + n mod 64)])"

function readIdentifier_loop :: "Lexer \<Rightarrow> Lexer" where
  "readIdentifier_loop l = (if isLetter (ch l) then readIdentifier_loop (readChar l) else l)"
  by pat_completeness auto
termination
  by (relation "measure (\<lambda>l. (length (input l) - readPosition l)
                              + (if isLetter (ch l) then 1 else 0))")
     (auto simp: readChar_def isLetter_def unicode_IsLetter_def)

declare readIdentifier_loop.simps [simp del]

definition readIdentifier :: "Lexer \<Rightarrow> failure + string \<times> Lexer" where
  "readIdentifier l =
     (let start = position l; l1 = readIdentifier_loop l
      in andThen (slice (input l1) start (position l1)) (\<lambda>s. Inr (s, l1)))"

function readDigits :: "Lexer \<Rightarrow> Lexer" where
  "readDigits l = (if isDigit (ch l) then readDigits (readChar l) else l)"
  by pat_completeness auto
termination
  by (relation "measure (\<lambda>l. (length (input l) - readPosition l)
                              + (if isDigit (ch l) then 1 else 0))")
     (auto simp: readChar_def isDigit_def)

declare readDigits.simps [simp del]

definition readNumber :: "Lexer \<Rightarrow> failure + string \<times> Lexer" where
  "readNumber l =
     (let start = position l;
          l1 = readDigits l;
          l2 = (if ch l1 = CHR ''.'' then readDigits (readChar l1) else l1)
      in andThen (slice (input l2) start (position l2)) (\<lambda>s. Inr (s, l2)))"

function readString_loop :: "Lexer \<Rightarrow> Lexer" where
  "readString_loop l =
     (let l1 = readChar l
      in if ch l1 = CHR 0x22 \<or> ch l1 = CHR 0x00 then l1 else readString_loop l1)"
  by pat_completeness auto
termination
  by (relation "measure (\<lambda>l. length (input l) - readPosition l)")
     (auto simp: readChar_def Let_def split: if_splits)

declare readString_loop.simps [simp del]

definition readString :: "Lexer \<Rightarrow> failure + string \<times> Lexer" where
  "readString l =
     (let pos = position l + 1; l1 = readString_loop l
      in andThen (slice (input l1) pos (position l1)) (\<lambda>s. Inr (s, l1)))"

definition lookupIdent :: "string \<Rightarrow> TokenType" where
  "lookupIdent ident =
     (if ident = ''if'' then IF
      else if ident = ''else'' then ELSE
      else if ident = ''int'' \<or> ident = ''string'' \<or> ident = ''void'' \<or> ident = ''float''
        then TYPE_T
      else if ident = ''return'' then RETURN
      else if ident = ''fn'' \<or> ident = ''func'' then FUNC
      else if ident = ''typeof'' then TYPEOF
      else if ident = ''loop'' then LOOP
      else if ident = ''while'' then WHILE
      else if ident = ''for'' then FOR
      else if ident = ''in'' then IN
      else if ident = ''true'' \<or> ident = ''false'' then BOOL
      else if ident = ''null'' \<or> ident = ''nil'' then NIL
      else if ident = ''break'' then BREAK
      else if ident = ''continue'' then CONTINUE
      else IDENT)"

text \<open>
  The common exit of \<open>NextToken\<close>: the token built from the current byte, then
  \<open>l.readChar()\<close>.
\<close>

definition emit :: "TokenType \<Rightarrow> string \<Rightarrow> Lexer \<Rightarrow> failure + Token \<times> Lexer" where
  "emit t lit l = Inr (\<lparr>Type = t, Literal = lit\<rparr>, readChar l)"

text \<open>
  A two-byte operator: when the next byte is \<open>second\<close>, the lexer reads it and the literal is
  both bytes; otherwise the single byte is the token \<open>single\<close>.
\<close>

definition twoChar :: "char \<Rightarrow> TokenType \<Rightarrow> TokenType \<Rightarrow> Lexer \<Rightarrow> failure + Token \<times> Lexer" where
  "twoChar second double single l =
     (if peekChar l = second then
        (let c = ch l; l1 = readChar l
         in emit double (string_of_byte c @ string_of_byte (ch l1)) l1)
      else emit single (string_of_byte (ch l)) l)"

definition NextToken :: "Lexer \<Rightarrow> failure + Token \<times> Lexer" where
  "NextToken l0 =
     (let l = skipWhitespace l0; c = ch l in
      if c = CHR ''('' then emit LPAREN (string_of_byte c) l
      else if c = CHR '')'' then emit RPAREN (string_of_byte c) l
      else if c = CHR ''{'' then emit LBRACE (string_of_byte c) l
      else if c = CHR ''}'' then emit RBRACE (string_of_byte c) l
      else if c = CHR '','' then emit COMMA (string_of_byte c) l
      else if c = CHR '';'' then emit SEMICOLON (string_of_byte c) l
      else if c = CHR ''*'' then emit MUL (string_of_byte c) l
      else if c = CHR ''-'' then emit SUB (string_of_byte c) l
      else if c = CHR ''+'' then emit ADD (string_of_byte c) l
      else if c = CHR ''/'' then emit DIV (string_of_byte c) l
      else if c = CHR ''<'' then emit LT (string_of_byte c) l
      else if c = CHR ''>'' then emit GT (string_of_byte c) l
      else if c = CHR ''='' then twoChar (CHR ''='') EQ ASSIGN l
      else if c = CHR ''!'' then twoChar (CHR ''='') NOT_EQ NOT l
      else if c = CHR ''&'' then twoChar (CHR ''&'') AND ILLEGAL l
      else if c = CHR ''|'' then twoChar (CHR ''|'') OR ILLEGAL l
      else if c = CHR ''%'' then emit MOD (string_of_byte c) l
      else if c = CHR 0x22 then
        andThen (readString l) (\<lambda>(lit, l1). emit STRING lit l1)
      else if c = CHR 0x00 then emit EOF [] l
      else if isLetter c then
        andThen (readIdentifier l) (\<lambda>(lit, l1). Inr (\<lparr>Type = lookupIdent lit, Literal = lit\<rparr>, l1))
      else if isDigit c then
        andThen (readNumber l) (\<lambda>(lit, l1).
          if CHR ''.'' \<in> set lit then Inr (\<lparr>Type = FLOAT, Literal = lit\<rparr>, l1)
          else Inr (\<lparr>Type = INT_T, Literal = lit\<rparr>, l1))
      else emit ILLEGAL (string_of_byte c) l)"

text \<open>\<open>n\<close> calls of \<open>NextToken\<close> in a row, as \<open>demoLexer\<close> makes them: the tokens and the lexer left.\<close>

fun NextTokens :: "nat \<Rightarrow> Lexer \<Rightarrow> failure + Token list \<times> Lexer" where
  "NextTokens 0 l = Inr ([], l)"
| "NextTokens (Suc n) l =
     andThen (NextToken l) (\<lambda>(tok, l1).
     andThen (NextTokens n l1) (\<lambda>(ts, l2). Inr (tok # ts, l2)))"

section \<open>Syntax trees (ast.go, parser.go)\<close>

text \<open>
  A field whose Go type is an interface or a pointer can be nil; such a field is an
  \<open>option\<close>, with \<open>None\<close> for nil. The value of a \<open>FloatLiteral\<close> is the \<open>float64\<close> that
  \<open>strconv.ParseFloat\<close> reads from the token's literal; the node keeps the token only.
\<close>

datatype Identifier = Identifier Token string

datatype Expression =
    Ident Identifier
  | IntegerLiteral Token int
  | FloatLiteral Token
  | StringLiteral Token string
  | BooleanLiteral Token bool
  | NilLiteral Token
  | VoidLiteral Token
  | PrefixExpression Token string "Expression option"
  | InfixExpression Token string "Expression option" "Expression option"
  | TypeOfExpression Token "Expression option"

datatype Parameter = Parameter Token "Identifier option"

text \<open>
  A \<open>Statement\<close> is an interface value. Converting a nil pointer (say a nil
  \<open>*IfStatement\<close>) to the interface gives a value that is not nil and holds the nil pointer:
  \<open>NilPointer\<close> with the pointer's type.
\<close>

datatype PointerType =
    IfStatementPtr | WhileStatementPtr | LoopStatementPtr | ForStatementPtr
  | FunctionStatementPtr | VariableDeclarationPtr

datatype Statement =
    ExpressionStatement Token "Expression option"
  | VariableDeclaration Token "Identifier option" "Expression option"
  | ReturnStatement Token "Expression option"
  | BreakStatement Token
  | ContinueStatement Token
  | IfStatement Token "Expression option" "BlockStatement option" "ElseIfClause list"
      "BlockStatement option"
  | WhileStatement Token "BlockStatement option" "Expression option"
  | LoopStatement Token "BlockStatement option"
  | ForStatement Token "Identifier option" "Expression option" "BlockStatement option"
  | FunctionStatement Token "Identifier option" "Parameter list" Token "BlockStatement option"
  | NilPointer PointerType
and BlockStatement = BlockStatement Token "Statement list"
and ElseIfClause = ElseIfClause "Expression option" "BlockStatement option"

datatype Program = Program "Statement list"

text \<open>
  The \<open>String\<close> methods of the expressions. \<open>None\<close> is the nil-pointer panic of a method
  call on a nil interface (\<open>pe.Right.String()\<close>). \<open>fmt.Sprintf\<close> with \<open>%s\<close> calls the
  operand's \<open>String\<close> method itself: it prints a nil operand as \<open>%!s(<nil>)\<close> and recovers
  from a panic of the method, printing the panic instead.
\<close>

definition sprintf_s :: "string option option \<Rightarrow> string" where
  "sprintf_s a =
     (case a of
        None \<Rightarrow> ''%!s(<nil>)''
      | Some None \<Rightarrow> ''%!s(PANIC=String method: runtime error: invalid memory address or nil pointer dereference)''
      | Some (Some s) \<Rightarrow> s)"

fun String_Expression :: "Expression \<Rightarrow> string option" where
  "String_Expression (Ident (Identifier tok v)) = Some v"
| "String_Expression (IntegerLiteral tok v) = Some (Literal tok)"
| "String_Expression (FloatLiteral tok) = Some (Literal tok)"
| "String_Expression (StringLiteral tok v) = Some ([CHR 0x22] @ v @ [CHR 0x22])"
| "String_Expression (BooleanLiteral tok v) = Some (Literal tok)"
| "String_Expression (NilLiteral tok) = Some (Literal tok)"
| "String_Expression (VoidLiteral tok) = Some (Literal tok)"
| "String_Expression (PrefixExpression tok operator right) =
     (case right of
        None \<Rightarrow> None
      | Some r \<Rightarrow> (case String_Expression r of
                    None \<Rightarrow> None
                  | Some s \<Rightarrow> Some (''('' @ operator @ s @ '')'')))"
| "String_Expression (InfixExpression tok operator left right) =
     Some (''('' @ sprintf_s (map_option String_Expression left) @ '' '' @ operator @ '' ''
           @ sprintf_s (map_option String_Expression right) @ '')'')"
| "String_Expression (TypeOfExpression tok e) =
     (case e of
        None \<Rightarrow> None
      | Some x \<Rightarrow> (case String_Expression x of
                    None \<Rightarrow> None
                  | Some s \<Rightarrow> Some (''typeof('' @ s @ '')'')))"

section \<open>Parser (parser.go)\<close>

record Parser =
  lexer :: Lexer
  curToken :: Token
  peekToken :: Token
  peekPeek :: Token
  errors :: "string list"

type_synonym 'a result = "failure + 'a \<times> Parser"

definition nextToken :: "Parser \<Rightarrow> failure + Parser" where
  "nextToken p =
     andThen (NextToken (lexer p)) (\<lambda>(tok, l).
       Inr (p\<lparr>curToken := peekToken p, peekToken := peekPeek p, peekPeek := tok, lexer := l\<rparr>))"

text \<open>The parser starts from the zero value of its fields: two empty strings in each token.\<close>

definition NewParser :: "Lexer \<Rightarrow> failure + Parser" where
  "NewParser l =
     (let z = \<lparr>Type = [], Literal = []\<rparr>;
          p = \<lparr>lexer = l, curToken = z, peekToken = z, peekPeek = z, errors = []\<rparr>
      in andThen (nextToken p) (\<lambda>p1. andThen (nextToken p1) nextToken))"

definition peekTokenIs :: "TokenType \<Rightarrow> Parser \<Rightarrow> bool" where
  "peekTokenIs t p \<longleftrightarrow> Type (peekToken p) = t"

definition curTokenIs :: "TokenType \<Rightarrow> Parser \<Rightarrow> bool" where
  "curTokenIs t p \<longleftrightarrow> Type (curToken p) = t"

definition addError :: "string \<Rightarrow> Parser \<Rightarrow> Parser" where
  "addError msg p = p\<lparr>errors := errors p @ [msg]\<rparr>"

definition GetErrors :: "Parser \<Rightarrow> string list" where
  "GetErrors p = errors p"

definition expectPeek :: "TokenType \<Rightarrow> Parser \<Rightarrow> bool result" where
  "expectPeek t p =
     (if Type (peekToken p) = t then andThen (nextToken p) (\<lambda>p1. Inr (True, p1))
      else Inr (False,
        addError (''expected next token to be '' @ t @ '', got '' @ Type (peekToken p)
                  @ '' instead'') p))"

definition peekPrecedence :: "Parser \<Rightarrow> int" where
  "peekPrecedence p =
     (case precedences (Type (peekToken p)) of Some prec \<Rightarrow> prec | None \<Rightarrow> LOWEST)"

definition curPrecedence :: "Parser \<Rightarrow> int" where
  "curPrecedence p =
     (case precedences (Type (curToken p)) of Some prec \<Rightarrow> prec | None \<Rightarrow> LOWEST)"

fun skipWhitespaceTokens :: "nat \<Rightarrow> Parser \<Rightarrow> failure + Parser" where
  "skipWhitespaceTokens 0 p = Inl OutOfFuel"
| "skipWhitespaceTokens (Suc k) p =
     (if Type (curToken p) = ILLEGAL \<and> Literal (curToken p) = [] then
        andThen (nextToken p) (\<lambda>p1.
          if Type (curToken p1) = EOF then Inr p1 else skipWhitespaceTokens k p1)
      else Inr p)"

text \<open>
  \<open>strconv.ParseInt(s, 10, 64)\<close> of Go's standard library: an optional sign and decimal
  digits, an error outside the range of \<open>int64\<close>.
\<close>

definition digits_value :: "string \<Rightarrow> int" where
  "digits_value ds = foldl (\<lambda>a c. 10 * a + (int (of_char c) - 48)) 0 ds"

definition ParseInt :: "string \<Rightarrow> int option" where
  "ParseInt s =
     (let neg = (s \<noteq> [] \<and> hd s = CHR ''-'');
          ds = (if s \<noteq> [] \<and> (hd s = CHR ''-'' \<or> hd s = CHR ''+'') then tl s else s);
          v = (if neg then - digits_value ds else digits_value ds)
      in if ds \<noteq> [] \<and> list_all isDigit ds \<and> - (2 ^ 63) \<le> v \<and> v < 2 ^ 63 then Some v
         else None)"

text \<open>
  Whether \<open>strconv.ParseFloat(s, 64)\<close> succeeds, on the literals without sign and exponent
  that the lexer gives a \<open>FLOAT\<close> token (digits, an optional point, digits): it fails when
  the value rounds to infinity, from \<open>2^1024 - 2^970\<close> on.
\<close>

definition ParseFloat_ok :: "string \<Rightarrow> bool" where
  "ParseFloat_ok s =
     (let ip = takeWhile isDigit s;
          r = dropWhile isDigit s;
          fp = (case r of [] \<Rightarrow> [] | c # fs \<Rightarrow> fs)
      in (r = [] \<or> hd r = CHR ''.'') \<and> list_all isDigit fp \<and> ip @ fp \<noteq> [] \<and>
         digits_value (ip @ fp) < (2 ^ 1024 - 2 ^ 970) * 10 ^ length fp)"

text \<open>
  The verb \<open>%q\<close> of \<open>fmt.Sprintf\<close> on a string without quotes, backslashes and
  unprintable bytes, as the literal of a number token is: the string in double quotes.
\<close>

definition quote :: "string \<Rightarrow> string" where
  "quote s = [CHR 0x22] @ s @ [CHR 0x22]"

text \<open>A text in single quotes, for the error messages.\<close>

definition sq :: "string \<Rightarrow> string" where
  "sq s = [CHR 0x27] @ s @ [CHR 0x27]"

definition parseBooleanLiteral :: "Parser \<Rightarrow> Expression option result" where
  "parseBooleanLiteral p =
     Inr (Some (BooleanLiteral (curToken p) (Literal (curToken p) = ''true'')), p)"

text \<open>
  The functions below call \<open>parseExpression\<close> recursively; they take it as their first
  argument \<open>parseExpression'\<close>, and \<open>parseExpression\<close> passes itself with less fuel.
\<close>

definition parsePrefixOperatorExpression ::
    "(int \<Rightarrow> Parser \<Rightarrow> Expression option result) \<Rightarrow> Parser \<Rightarrow> Expression option result" where
  "parsePrefixOperatorExpression parseExpression' p =
     (let tok = curToken p; operator = Literal (curToken p) in
      andThen (nextToken p) (\<lambda>p1.
      andThen (parseExpression' PREFIX p1) (\<lambda>(right, p2).
        Inr (Some (PrefixExpression tok operator right), p2))))"

definition parseInfixExpression ::
    "(int \<Rightarrow> Parser \<Rightarrow> Expression option result) \<Rightarrow> Expression option \<Rightarrow> Parser
     \<Rightarrow> Expression option result" where
  "parseInfixExpression parseExpression' left p =
     (let tok = curToken p; operator = Literal (curToken p); precedence = curPrecedence p in
      andThen (nextToken p) (\<lambda>p1.
      andThen (parseExpression' precedence p1) (\<lambda>(right, p2).
        Inr (Some (InfixExpression tok operator left right), p2))))"

definition parseTypeofExpression ::
    "(int \<Rightarrow> Parser \<Rightarrow> Expression option result) \<Rightarrow> Parser \<Rightarrow> Expression option result" where
  "parseTypeofExpression parseExpression' p =
     (let tok = curToken p in
      andThen (expectPeek LPAREN p) (\<lambda>(ok, p1).
        if \<not> ok then Inr (None, p1)
        else
          andThen (nextToken p1) (\<lambda>p2.
          andThen (parseExpression' LOWEST p2) (\<lambda>(e, p3).
          andThen (expectPeek RPAREN p3) (\<lambda>(ok, p4).
            if \<not> ok then Inr (None, p4)
            else Inr (Some (TypeOfExpression tok e), p4))))))"

definition parsePrefixExpression ::
    "(int \<Rightarrow> Parser \<Rightarrow> Expression option result) \<Rightarrow> nat \<Rightarrow> Parser
     \<Rightarrow> Expression option result" where
  "parsePrefixExpression parseExpression' k p0 =
     andThen (skipWhitespaceTokens k p0) (\<lambda>p.
       let tok = curToken p; t = Type tok in
       if t = VOID then Inr (Some (VoidLiteral tok), p)
       else if t = IDENT then Inr (Some (Ident (Identifier tok (Literal tok))), p)
       else if t = INT_T then
         (case ParseInt (Literal tok) of
            None \<Rightarrow>
              Inr (None, addError (''could not parse '' @ quote (Literal tok) @ '' as integer'') p)
          | Some v \<Rightarrow> Inr (Some (IntegerLiteral tok v), p))
       else if t = BOOL then parseBooleanLiteral p
       else if t = NIL then Inr (Some (NilLiteral tok), p)
       else if t = STRING then Inr (Some (StringLiteral tok (Literal tok)), p)
       else if t = FLOAT then
         (if \<not> ParseFloat_ok (Literal tok) then
            Inr (None, addError (''could not parse '' @ quote (Literal tok) @ '' as float'') p)
          else andThen (nextToken p) (\<lambda>p1. Inr (Some (FloatLiteral tok), p1)))
       else if t = LPAREN then
         andThen (nextToken p) (\<lambda>p1.
         andThen (parseExpression' LOWEST p1) (\<lambda>(exp, p2).
         andThen (expectPeek RPAREN p2) (\<lambda>(ok, p3).
           if \<not> ok then Inr (None, p3) else Inr (exp, p3))))
       else if t = SUB \<or> t = ADD then parsePrefixOperatorExpression parseExpression' p
       else if t = TYPEOF then parseTypeofExpression parseExpression' p
       else
         Inr (None,
           if t \<noteq> EOF then addError (''no prefix parse function for '' @ t @ '' found'') p
           else p))"

text \<open>The loop of \<open>parseExpression'\<close>, entered with the left operand parsed so far.\<close>

fun parseExpression_loop ::
    "(int \<Rightarrow> Parser \<Rightarrow> Expression option result) \<Rightarrow> nat \<Rightarrow> int \<Rightarrow> Expression \<Rightarrow> Parser
     \<Rightarrow> Expression option result" where
  "parseExpression_loop parseExpression' 0 precedence leftExp p = Inl OutOfFuel"
| "parseExpression_loop parseExpression' (Suc k) precedence leftExp p =
     (if Type (peekToken p) \<noteq> SEMICOLON \<and> precedence < peekPrecedence p
         \<and> Type (peekToken p) \<noteq> EOF then
        andThen (nextToken p) (\<lambda>p1.
        andThen (parseInfixExpression parseExpression' (Some leftExp) p1) (\<lambda>(e, p2).
          case e of
            None \<Rightarrow> Inr (None, p2)
          | Some leftExp' \<Rightarrow> parseExpression_loop parseExpression' k precedence leftExp' p2))
      else Inr (Some leftExp, p))"

fun parseExpression :: "nat \<Rightarrow> int \<Rightarrow> Parser \<Rightarrow> Expression option result" where
  "parseExpression 0 precedence p = Inl OutOfFuel"
| "parseExpression (Suc n) precedence p =
     andThen (parsePrefixExpression (parseExpression n) n p) (\<lambda>(leftExp, p1).
       case leftExp of
         None \<Rightarrow> Inr (None, p1)
       | Some e \<Rightarrow> parseExpression_loop (parseExpression n) n precedence e p1)"

text \<open>
  The statement parsers. A function that can return a nil pointer returns an \<open>option\<close>;
  one that always returns the address of a fresh node returns the node. Those that parse
  nested statements take \<open>parseStatement\<close> as the argument \<open>parseStatement'\<close>, as above,
  and \<open>k\<close> as the fuel of their loops.
\<close>

definition parseReturnStatement :: "(int \<Rightarrow> Parser \<Rightarrow> Expression option result) \<Rightarrow> Parser \<Rightarrow> Statement result" where
  "parseReturnStatement parseExpression' p =
     (let tok = curToken p in
      if Type (peekToken p) = SEMICOLON then
        andThen (nextToken p) (\<lambda>p1. Inr (ReturnStatement tok None, p1))
      else if Type (peekToken p) = RBRACE then Inr (ReturnStatement tok None, p)
      else
        andThen (nextToken p) (\<lambda>p1.
        andThen (parseExpression' LOWEST p1) (\<lambda>(returnValue, p2).
        andThen (if Type (peekToken p2) = SEMICOLON then nextToken p2 else Inr p2) (\<lambda>p3.
          Inr (ReturnStatement tok returnValue, p3)))))"

definition parseBreakStatement :: "Parser \<Rightarrow> Statement result" where
  "parseBreakStatement p =
     (let tok = curToken p in
      andThen (if Type (peekToken p) = SEMICOLON then nextToken p else Inr p) (\<lambda>p1.
        Inr (BreakStatement tok, p1)))"

definition parseContinueStatement :: "Parser \<Rightarrow> Statement result" where
  "parseContinueStatement p =
     (let tok = curToken p in
      andThen (if Type (peekToken p) = SEMICOLON then nextToken p else Inr p) (\<lambda>p1.
        Inr (ContinueStatement tok, p1)))"

fun parseBlockStatement_loop ::
    "(Parser \<Rightarrow> Statement option result) \<Rightarrow> nat \<Rightarrow> Statement list \<Rightarrow> Parser
     \<Rightarrow> Statement list result" where
  "parseBlockStatement_loop parseStatement' 0 statements p = Inl OutOfFuel"
| "parseBlockStatement_loop parseStatement' (Suc k) statements p =
     (if \<not> curTokenIs RBRACE p \<and> \<not> curTokenIs EOF p then
        andThen (parseStatement' p) (\<lambda>(stmt, p1).
        andThen (nextToken p1) (\<lambda>p2.
          parseBlockStatement_loop parseStatement' k
            (case stmt of None \<Rightarrow> statements | Some s \<Rightarrow> statements @ [s]) p2))
      else Inr (statements, p))"

definition parseBlockStatement ::
    "(Parser \<Rightarrow> Statement option result) \<Rightarrow> nat \<Rightarrow> Parser \<Rightarrow> BlockStatement result" where
  "parseBlockStatement parseStatement' k p =
     (let tok = curToken p in
      andThen (nextToken p) (\<lambda>p1.
      andThen (parseBlockStatement_loop parseStatement' k [] p1) (\<lambda>(statements, p2).
        Inr (BlockStatement tok statements, p2))))"

definition parseDeclarationStatement ::
    "(int \<Rightarrow> Parser \<Rightarrow> Expression option result) \<Rightarrow> Parser \<Rightarrow> Statement option result" where
  "parseDeclarationStatement parseExpression' p =
     (if Type (curToken p) \<noteq> TYPE_T \<and> Type (curToken p) \<noteq> VOID then
        Inr (None, addError (''expected type, got '' @ Type (curToken p)) p)
      else
        let tok = curToken p in
        andThen (expectPeek IDENT p) (\<lambda>(ok, p1).
          if \<not> ok then Inr (None, p1)
          else
            let name = Identifier (curToken p1) (Literal (curToken p1)) in
            andThen (expectPeek ASSIGN p1) (\<lambda>(ok, p2).
              if \<not> ok then Inr (None, p2)
              else
                andThen (nextToken p2) (\<lambda>p3.
                andThen (parseExpression' LOWEST p3) (\<lambda>(val, p4).
                andThen (if peekTokenIs SEMICOLON p4 then nextToken p4 else Inr p4) (\<lambda>p5.
                  Inr (Some (VariableDeclaration tok (Some name) val), p5)))))))"

definition parseWhileStatement ::
    "(Parser \<Rightarrow> Statement option result) \<Rightarrow> (int \<Rightarrow> Parser \<Rightarrow> Expression option result) \<Rightarrow> nat
     \<Rightarrow> Parser \<Rightarrow> Statement option result" where
  "parseWhileStatement parseStatement' parseExpression' k p =
     (let tok = curToken p in
      andThen (expectPeek LPAREN p) (\<lambda>(ok, p1).
        if \<not> ok then Inr (None, addError (''expected '' @ sq ''('' @ '' after '' @ sq ''while'') p1)
        else
          andThen (nextToken p1) (\<lambda>p2.
          andThen (parseExpression' LOWEST p2) (\<lambda>(condition, p3).
            if condition = None then Inr (None, p3)
            else
              andThen (expectPeek RPAREN p3) (\<lambda>(ok, p4).
                if \<not> ok then
                  Inr (None, addError (''expected '' @ sq '')'' @ '' after while condition'') p4)
                else
                  andThen (expectPeek LBRACE p4) (\<lambda>(ok, p5).
                    if \<not> ok then
                      Inr (None,
                        addError (''expected '' @ sq ''{'' @ '' after while condition'') p5)
                    else
                      andThen (parseBlockStatement parseStatement' k p5) (\<lambda>(block, p6).
                        Inr (Some (WhileStatement tok (Some block) condition), p6))))))))"

definition parseLoopStatement ::
    "(Parser \<Rightarrow> Statement option result) \<Rightarrow> nat \<Rightarrow> Parser \<Rightarrow> Statement option result" where
  "parseLoopStatement parseStatement' k p =
     (let tok = curToken p in
      andThen (expectPeek LBRACE p) (\<lambda>(ok, p1).
        if \<not> ok then Inr (None, addError (''expected '' @ sq ''{'' @ '' after '' @ sq ''loop'') p1)
        else
          andThen (parseBlockStatement parseStatement' k p1) (\<lambda>(block, p2).
            Inr (Some (LoopStatement tok (Some block)), p2))))"

definition parseForStatement ::
    "(Parser \<Rightarrow> Statement option result) \<Rightarrow> (int \<Rightarrow> Parser \<Rightarrow> Expression option result) \<Rightarrow> nat
     \<Rightarrow> Parser \<Rightarrow> Statement option result" where
  "parseForStatement parseStatement' parseExpression' k p =
     (let tok = curToken p in
      andThen (expectPeek LPAREN p) (\<lambda>(ok, p1).
        if \<not> ok then Inr (None, addError (''expected '' @ sq ''('' @ '' after '' @ sq ''for'') p1)
        else
          andThen (expectPeek IDENT p1) (\<lambda>(ok, p2).
            if \<not> ok then
              Inr (None,
                addError (''expected identifier after '' @ sq ''('' @ '' in for statement'') p2)
            else
              let ident = Identifier (curToken p2) (Literal (curToken p2)) in
              andThen (expectPeek IN p2) (\<lambda>(ok, p3).
                if \<not> ok then
                  Inr (None,
                    addError (''expected '' @ sq ''in''
                              @ '' after identifier in for statement'') p3)
                else
                  andThen (nextToken p3) (\<lambda>p4.
                  andThen (parseExpression' LOWEST p4) (\<lambda>(iterable, p5).
                    if iterable = None then Inr (None, p5)
                    else
                      andThen (expectPeek RPAREN p5) (\<lambda>(ok, p6).
                        if \<not> ok then
                          Inr (None,
                            addError (''expected '' @ sq '')'' @ '' after for loop iterable'') p6)
                        else
                          andThen (expectPeek LBRACE p6) (\<lambda>(ok, p7).
                            if \<not> ok then
                              Inr (None,
                                addError (''expected '' @ sq ''{''
                                          @ '' after for loop header'') p7)
                            else
                              andThen (parseBlockStatement parseStatement' k p7) (\<lambda>(block, p8).
                                Inr (Some (ForStatement tok (Some ident) iterable (Some block)),
                                     p8))))))))))"

definition parseParameter :: "Parser \<Rightarrow> Parameter option result" where
  "parseParameter p =
     (if Type (curToken p) \<noteq> TYPE_T then
        Inr (None, addError (''expected parameter type, got '' @ Type (curToken p)) p)
      else
        let ty = curToken p in
        andThen (expectPeek IDENT p) (\<lambda>(ok, p1).
          if \<not> ok then Inr (None, p1)
          else
            Inr (Some (Parameter ty (Some (Identifier (curToken p1) (Literal (curToken p1))))),
                 p1)))"

fun parseFunctionParameters_loop :: "nat \<Rightarrow> Parameter list \<Rightarrow> Parser \<Rightarrow> Parameter list result" where
  "parseFunctionParameters_loop 0 params p = Inl OutOfFuel"
| "parseFunctionParameters_loop (Suc k) params p =
     (if Type (peekToken p) = COMMA then
        andThen (nextToken p) (\<lambda>p1.
        andThen (nextToken p1) (\<lambda>p2.
        andThen (parseParameter p2) (\<lambda>(param, p3).
          parseFunctionParameters_loop k
            (case param of None \<Rightarrow> params | Some x \<Rightarrow> params @ [x]) p3)))
      else Inr (params, p))"

text \<open>A nil slice and an empty slice are both the empty list.\<close>

definition parseFunctionParameters :: "nat \<Rightarrow> Parser \<Rightarrow> Parameter list result" where
  "parseFunctionParameters k p =
     (if Type (peekToken p) = RPAREN then andThen (nextToken p) (\<lambda>p1. Inr ([], p1))
      else
        andThen (nextToken p) (\<lambda>p1.
        andThen (parseParameter p1) (\<lambda>(param, p2).
        andThen (parseFunctionParameters_loop k
                   (case param of None \<Rightarrow> [] | Some x \<Rightarrow> [x]) p2) (\<lambda>(params, p3).
        andThen (expectPeek RPAREN p3) (\<lambda>(ok, p4).
          if \<not> ok then Inr ([], p4) else Inr (params, p4))))))"

text \<open>
  Both branches of \<open>parseFunctionStatement\<close> (after \<open>fn\<close>, after a type) expect the
  identifier in the same way; they differ in the return type only.
\<close>

definition parseFunctionStatement ::
    "(Parser \<Rightarrow> Statement option result) \<Rightarrow> nat \<Rightarrow> Parser \<Rightarrow> Statement option result" where
  "parseFunctionStatement parseStatement' k p =
     (let tok = curToken p;
          returnType = (if Type (curToken p) = FUNC then \<lparr>Type = VOID, Literal = ''void''\<rparr>
                        else curToken p) in
      andThen (expectPeek IDENT p) (\<lambda>(ok, p1).
        if \<not> ok then Inr (None, p1)
        else
          let name = Identifier (curToken p1) (Literal (curToken p1)) in
          andThen (expectPeek LPAREN p1) (\<lambda>(ok, p2).
            if \<not> ok then Inr (None, p2)
            else
              andThen (parseFunctionParameters k p2) (\<lambda>(parameters, p3).
              andThen (expectPeek LBRACE p3) (\<lambda>(ok, p4).
                if \<not> ok then Inr (None, p4)
                else
                  andThen (parseBlockStatement parseStatement' k p4) (\<lambda>(body, p5).
                    Inr (Some (FunctionStatement tok (Some name) parameters returnType
                                 (Some body)), p5)))))))"

text \<open>
  The body of a branch of an \<open>if\<close>, which the source writes out three times (then, else-if,
  else): a block in braces, or one statement made into a block. \<open>None\<close> is the
  \<open>return nil\<close> of \<open>parseIfStatement\<close> at this place.
\<close>

definition parseIfBody ::
    "(Parser \<Rightarrow> Statement option result) \<Rightarrow> nat \<Rightarrow> Parser \<Rightarrow> BlockStatement option result" where
  "parseIfBody parseStatement' k p =
     (if Type (peekToken p) = LBRACE then
        andThen (expectPeek LBRACE p) (\<lambda>(ok, p1).
          if \<not> ok then Inr (None, p1)
          else
            andThen (parseBlockStatement parseStatement' k p1) (\<lambda>(block, p2).
              Inr (Some block, p2)))
      else
        andThen (nextToken p) (\<lambda>p1.
        andThen (parseStatement' p1) (\<lambda>(singleStmt, p2).
          case singleStmt of
            None \<Rightarrow> Inr (None, p2)
          | Some s \<Rightarrow> Inr (Some (BlockStatement (curToken p2) [s]), p2))))"

text \<open>
  The loop over the \<open>else\<close> clauses, with the fields of the statement built so far.
\<close>

fun parseIfStatement_loop ::
    "(Parser \<Rightarrow> Statement option result) \<Rightarrow> (int \<Rightarrow> Parser \<Rightarrow> Expression option result) \<Rightarrow> nat
     \<Rightarrow> nat \<Rightarrow> Token \<Rightarrow> Expression option \<Rightarrow> BlockStatement option \<Rightarrow> ElseIfClause list
     \<Rightarrow> Parser \<Rightarrow> Statement option result" where
  "parseIfStatement_loop parseStatement' parseExpression' k 0 tok cond thenBlock elseIfs p =
     Inl OutOfFuel"
| "parseIfStatement_loop parseStatement' parseExpression' k (Suc j) tok cond thenBlock elseIfs p =
     (if Type (peekToken p) = ELSE then
        andThen (nextToken p) (\<lambda>p1.
          if Type (peekToken p1) = IF then
            andThen (nextToken p1) (\<lambda>p2.
            andThen (expectPeek LPAREN p2) (\<lambda>(ok, p3).
              if \<not> ok then Inr (None, p3)
              else
                andThen (nextToken p3) (\<lambda>p4.
                andThen (parseExpression' LOWEST p4) (\<lambda>(condition, p5).
                  if condition = None then Inr (None, p5)
                  else
                    andThen (expectPeek RPAREN p5) (\<lambda>(ok, p6).
                      if \<not> ok then Inr (None, p6)
                      else
                        andThen (parseIfBody parseStatement' k p6) (\<lambda>(block, p7).
                          case block of
                            None \<Rightarrow> Inr (None, p7)
                          | Some b \<Rightarrow>
                              parseIfStatement_loop parseStatement' parseExpression' k j tok cond
                                thenBlock (elseIfs @ [ElseIfClause condition (Some b)]) p7))))))
          else
            andThen (parseIfBody parseStatement' k p1) (\<lambda>(block, p2).
              case block of
                None \<Rightarrow> Inr (None, p2)
              | Some b \<Rightarrow> Inr (Some (IfStatement tok cond thenBlock elseIfs (Some b)), p2)))
      else Inr (Some (IfStatement tok cond thenBlock elseIfs None), p))"

definition parseIfStatement ::
    "(Parser \<Rightarrow> Statement option result) \<Rightarrow> (int \<Rightarrow> Parser \<Rightarrow> Expression option result) \<Rightarrow> nat
     \<Rightarrow> Parser \<Rightarrow> Statement option result" where
  "parseIfStatement parseStatement' parseExpression' k p =
     (let tok = curToken p in
      andThen (expectPeek LPAREN p) (\<lambda>(ok, p1).
        if \<not> ok then Inr (None, p1)
        else
          andThen (nextToken p1) (\<lambda>p2.
          andThen (parseExpression' LOWEST p2) (\<lambda>(condition, p3).
            if condition = None then Inr (None, p3)
            else
              andThen (expectPeek RPAREN p3) (\<lambda>(ok, p4).
                if \<not> ok then Inr (None, p4)
                else
                  andThen (parseIfBody parseStatement' k p4) (\<lambda>(thenBlock, p5).
                    case thenBlock of
                      None \<Rightarrow> Inr (None, p5)
                    | Some b \<Rightarrow>
                        parseIfStatement_loop parseStatement' parseExpression' k k tok condition
                          (Some b) [] p5))))))"

text \<open>
  The conversion of a pointer to the interface \<open>Statement\<close> at a \<open>return\<close> of
  \<open>parseStatement'\<close>: the interface value is never nil, also when the pointer is.
\<close>

definition asStatement :: "PointerType \<Rightarrow> Statement option result \<Rightarrow> Statement option result" where
  "asStatement ty r =
     andThen r (\<lambda>(s, p). Inr (Some (case s of None \<Rightarrow> NilPointer ty | Some x \<Rightarrow> x), p))"

definition always :: "Statement result \<Rightarrow> Statement option result" where
  "always r = andThen r (\<lambda>(s, p). Inr (Some s, p))"

fun parseStatement :: "nat \<Rightarrow> Parser \<Rightarrow> Statement option result" where
  "parseStatement 0 p0 = Inl OutOfFuel"
| "parseStatement (Suc n) p0 =
     andThen (skipWhitespaceTokens n p0) (\<lambda>p.
       let t = Type (curToken p) in
       if t = IF then
         asStatement IfStatementPtr (parseIfStatement (parseStatement n) (parseExpression n) n p)
       else if t = RETURN then always (parseReturnStatement (parseExpression n) p)
       else if t = BREAK then always (parseBreakStatement p)
       else if t = CONTINUE then always (parseContinueStatement p)
       else if t = WHILE then
         asStatement WhileStatementPtr
           (parseWhileStatement (parseStatement n) (parseExpression n) n p)
       else if t = LOOP then
         asStatement LoopStatementPtr (parseLoopStatement (parseStatement n) n p)
       else if t = FOR then
         asStatement ForStatementPtr
           (parseForStatement (parseStatement n) (parseExpression n) n p)
       else if t = FUNC then
         asStatement FunctionStatementPtr (parseFunctionStatement (parseStatement n) n p)
       else if t = TYPE_T \<or> t = VOID then
         (if Type (peekToken p) = IDENT then
            (if Type (peekPeek p) = LPAREN then
               asStatement FunctionStatementPtr (parseFunctionStatement (parseStatement n) n p)
             else if Type (peekPeek p) = ASSIGN then
               asStatement VariableDeclarationPtr
                 (parseDeclarationStatement (parseExpression n) p)
             else
               asStatement VariableDeclarationPtr
                 (parseDeclarationStatement (parseExpression n) p))
          else Inr (None, p))
       else if t = RBRACE \<or> t = SEMICOLON \<or> t = EOF then Inr (None, p)
       else
         andThen (parseExpression n LOWEST p) (\<lambda>(expr, p1).
           if expr \<noteq> None then
             (let stmt = ExpressionStatement (curToken p1) expr in
              andThen (if Type (peekToken p1) = SEMICOLON then nextToken p1 else Inr p1) (\<lambda>p2.
                Inr (Some stmt, p2)))
           else
             Inr (None,
               if Type (curToken p1) \<noteq> EOF then
                 addError (''unexpected token: '' @ Literal (curToken p1)) p1
               else p1)))"

fun ParseProgram_loop ::
    "(Parser \<Rightarrow> Statement option result) \<Rightarrow> nat \<Rightarrow> Statement list \<Rightarrow> Parser
     \<Rightarrow> Statement list result" where
  "ParseProgram_loop parseStatement' 0 statements p = Inl OutOfFuel"
| "ParseProgram_loop parseStatement' (Suc k) statements p =
     (if Type (curToken p) \<noteq> EOF then
        andThen (skipWhitespaceTokens k p) (\<lambda>p1.
          if Type (curToken p1) = EOF then Inr (statements, p1)
          else
            andThen (parseStatement' p1) (\<lambda>(stmt, p2).
            andThen (nextToken p2) (\<lambda>p3.
              ParseProgram_loop parseStatement' k
                (case stmt of None \<Rightarrow> statements | Some s \<Rightarrow> statements @ [s]) p3)))
      else Inr (statements, p))"

definition ParseProgram :: "nat \<Rightarrow> Parser \<Rightarrow> Program result" where
  "ParseProgram n p =
     andThen (ParseProgram_loop (parseStatement n) n [] p) (\<lambda>(statements, p1).
       Inr (Program statements, p1))"

text \<open>A parse of a source text, as \<open>main\<close> runs it: the program and the recorded errors.\<close>

definition parse :: "nat \<Rightarrow> string \<Rightarrow> failure + Program \<times> string list" where
  "parse n source =
     andThen (NewParser (NewLexer source)) (\<lambda>p.
     andThen (ParseProgram n p) (\<lambda>(program, p1). Inr (program, GetErrors p1)))"

text \<open>
  The parse of one expression and its printed form, as \<open>demoTypeofEvaluation\<close> obtains
  them: the expression, or its \<open>String()\<close>, and the recorded errors.
\<close>

definition parseExpressionSource :: "nat \<Rightarrow> string \<Rightarrow> failure + Expression option \<times> string list" where
  "parseExpressionSource n source =
     andThen (NewParser (NewLexer source)) (\<lambda>p.
     andThen (parseExpression n LOWEST p) (\<lambda>(expr, p1). Inr (expr, GetErrors p1)))"

definition printExpression :: "nat \<Rightarrow> string \<Rightarrow> failure + string option option \<times> string list" where
  "printExpression n source =
     andThen (parseExpressionSource n source) (\<lambda>(expr, errs).
       Inr (map_option String_Expression expr, errs))"

text \<open>
  The tokens that \<open>parseExpression\<close> folds as binary operators and that the lexer produces:
  the keys of \<open>precedences\<close> but \<open>LE\<close> and \<open>GE\<close>, which no source text yields. \<open>(\<close> is among
  them, with the precedence \<open>CALL\<close>. \<open>precedenceOf\<close> is the precedence of a token kind.
\<close>

definition binaryOperators :: "TokenType list" where
  "binaryOperators = [OR, AND, EQ, NOT_EQ, LT, GT, ADD, SUB, MUL, DIV, MOD, LPAREN]"

definition precedenceOf :: "TokenType \<Rightarrow> int" where
  "precedenceOf t = (case precedences t of Some prec \<Rightarrow> prec | None \<Rightarrow> LOWEST)"

section \<open>Invariants\<close>

text \<open>
  Every call of \<open>readChar\<close> leaves the lexer with \<open>readPosition\<close> one past \<open>position\<close> and
  with \<open>ch\<close> the byte at \<open>position\<close>, or 0 past the end of the input.
\<close>

definition lexer_inv :: "Lexer \<Rightarrow> bool" where
  "lexer_inv l \<longleftrightarrow>
     readPosition l = position l + 1 \<and>
     ch l = (if position l < length (input l) then input l ! position l else CHR 0x00)"

text \<open>
  \<open>scanned l l'\<close>: a scanning loop took the lexer from \<open>l\<close> to \<open>l'\<close>, forwards over the same
  input and not beyond its end; \<open>advanced\<close> is the same without the bound.
\<close>

definition scanned :: "Lexer \<Rightarrow> Lexer \<Rightarrow> bool" where
  "scanned l l' \<longleftrightarrow> input l' = input l \<and> lexer_inv l' \<and> position l \<le> position l' \<and>
      (position l \<le> length (input l) \<longrightarrow> position l' \<le> length (input l))"

definition advanced :: "Lexer \<Rightarrow> Lexer \<Rightarrow> bool" where
  "advanced l l' \<longleftrightarrow> input l' = input l \<and> lexer_inv l' \<and> position l \<le> position l'"

definition lex_ok :: "Lexer \<Rightarrow> failure + Token \<times> Lexer \<Rightarrow> bool" where
  "lex_ok m r \<longleftrightarrow> (\<exists>tok l'. r = Inr (tok, l') \<and> advanced (readChar m) l')"

text \<open>
  The parser holds the invariant of its lexer. \<open>remaining\<close> measures the input that is left:
  the bytes the lexer has not passed, and the tokens of the three-token window that are not
  \<open>EOF\<close>, a later one counting more, so that \<open>nextToken\<close> makes the measure smaller
  unless it is 0 already.
\<close>

definition parser_inv :: "Parser \<Rightarrow> bool" where
  "parser_inv p \<longleftrightarrow> lexer_inv (lexer p)"

definition weight :: "Token \<Rightarrow> nat" where
  "weight tok = (if Type tok = EOF then 0 else 1)"

definition remaining :: "Parser \<Rightarrow> nat" where
  "remaining p =
     7 * (length (input (lexer p)) - position (lexer p))
     + (weight (curToken p) + 2 * weight (peekToken p) + 3 * weight (peekPeek p))"

text \<open>
  \<open>stepped p p'\<close>: a parse function took the parser from \<open>p\<close> to \<open>p'\<close>; it kept the
  invariant, did not go back in the input and only added to the error list. \<open>returns p r\<close>:
  the call with result \<open>r\<close>, made in the state \<open>p\<close>, returned (no panic, enough fuel) in such a
  state.
\<close>

definition stepped :: "Parser \<Rightarrow> Parser \<Rightarrow> bool" where
  "stepped p p' \<longleftrightarrow>
     parser_inv p' \<and> remaining p' \<le> remaining p \<and> prefix (errors p) (errors p')"

definition returns :: "Parser \<Rightarrow> failure + 'a \<times> Parser \<Rightarrow> bool" where
  "returns p r \<longleftrightarrow> (\<exists>v p'. r = Inr (v, p') \<and> stepped p p')"

text \<open>
  What a parse function asks of the \<open>parseExpression'\<close> or \<open>parseStatement'\<close> it is given:
  that it returns on every state with less than \<open>M\<close> remaining.
\<close>

definition callee_ok :: "(int \<Rightarrow> Parser \<Rightarrow> Expression option result) \<Rightarrow> nat \<Rightarrow> bool" where
  "callee_ok pe M \<longleftrightarrow> (\<forall>prec q. parser_inv q \<longrightarrow> remaining q < M \<longrightarrow> returns q (pe prec q))"

definition stmt_callee_ok :: "(Parser \<Rightarrow> Statement option result) \<Rightarrow> nat \<Rightarrow> bool" where
  "stmt_callee_ok ps M \<longleftrightarrow> (\<forall>q. parser_inv q \<longrightarrow> remaining q < M \<longrightarrow> returns q (ps q))"

section \<open>The lexer never panics and moves forward\<close>

lemma andThen_Inr [simp]: "andThen (Inr x) f = f x"
  by (simp add: andThen_def)

lemma andThen_Inl [simp]: "andThen (Inl e) f = Inl e"
  by (simp add: andThen_def)

lemma andThen_eq_Inr: "andThen m f = Inr y \<longleftrightarrow> (\<exists>x. m = Inr x \<and> f x = Inr y)"
  by (cases m) simp_all

lemma readChar_fields [simp]:
  "input (readChar l) = input l"
  "position (readChar l) = readPosition l"
  "readPosition (readChar l) = readPosition l + 1"
  "ch (readChar l) = (if length (input l) \<le> readPosition l then CHR 0x00 else input l ! readPosition l)"
  by (simp_all add: readChar_def)

lemma lexer_inv_readChar [simp]: "lexer_inv (readChar l)"
  by (simp add: lexer_inv_def)

lemma lexer_inv_NewLexer: "lexer_inv (NewLexer s)" "input (NewLexer s) = s" "position (NewLexer s) = 0"
  by (simp_all add: NewLexer_def)

lemma inv_ch_nonzero: "lexer_inv l \<Longrightarrow> ch l \<noteq> CHR 0x00 \<Longrightarrow> position l < length (input l)"
  by (auto simp: lexer_inv_def split: if_splits)

lemma inv_exhausted: "lexer_inv l \<Longrightarrow> length (input l) \<le> position l \<Longrightarrow> ch l = CHR 0x00"
  by (auto simp: lexer_inv_def)

lemma not_ws_zero [simp]: "\<not> isWhitespace (CHR 0x00)"
  by (simp add: isWhitespace_def)
lemma not_letter_zero [simp]: "\<not> isLetter (CHR 0x00)"
  by (simp add: isLetter_def unicode_IsLetter_def)
lemma not_digit_zero [simp]: "\<not> isDigit (CHR 0x00)"
  by (simp add: isDigit_def)

lemma scanned_refl: "lexer_inv l \<Longrightarrow> scanned l l"
  by (simp add: scanned_def)

lemma scanned_trans: "scanned a b \<Longrightarrow> scanned b c \<Longrightarrow> scanned a c"
  by (auto simp: scanned_def)

lemma scanned_readChar: "lexer_inv l \<Longrightarrow> ch l \<noteq> CHR 0x00 \<Longrightarrow> scanned l (readChar l)"
proof -
  assume a: "lexer_inv l" "ch l \<noteq> CHR 0x00"
  then have "position l < length (input l)" by (rule inv_ch_nonzero)
  moreover have "readPosition l = position l + 1" using a by (simp add: lexer_inv_def)
  ultimately show ?thesis by (simp add: scanned_def)
qed

lemma scanned_skipWhitespace: "lexer_inv l \<Longrightarrow> scanned l (skipWhitespace l)"
proof (induction l rule: skipWhitespace.induct)
  case (1 l)
  show ?case
  proof (cases "isWhitespace (ch l)")
    case True
    then have nz: "ch l \<noteq> CHR 0x00" by auto
    have "scanned (readChar l) (skipWhitespace (readChar l))"
      using 1 True by simp
    with scanned_readChar[OF "1.prems" nz] have "scanned l (skipWhitespace (readChar l))"
      by (rule scanned_trans)
    then show ?thesis using True by (simp add: skipWhitespace.simps[of l])
  next
    case False
    then show ?thesis using 1 by (simp add: skipWhitespace.simps[of l] scanned_refl)
  qed
qed

lemma skipWhitespace_ch: "\<not> isWhitespace (ch (skipWhitespace l))"
proof (induction l rule: skipWhitespace.induct)
  case (1 l)
  then show ?case by (cases "isWhitespace (ch l)") (simp_all add: skipWhitespace.simps[of l])
qed

lemma skipWhitespace_id: "\<not> isWhitespace (ch l) \<Longrightarrow> skipWhitespace l = l"
  by (simp add: skipWhitespace.simps[of l])

lemma scanned_readIdentifier_loop: "lexer_inv l \<Longrightarrow> scanned l (readIdentifier_loop l)"
proof (induction l rule: readIdentifier_loop.induct)
  case (1 l)
  show ?case
  proof (cases "isLetter (ch l)")
    case True
    then have nz: "ch l \<noteq> CHR 0x00" by auto
    have "scanned (readChar l) (readIdentifier_loop (readChar l))"
      using 1 True by simp
    with scanned_readChar[OF "1.prems" nz] have "scanned l (readIdentifier_loop (readChar l))"
      by (rule scanned_trans)
    then show ?thesis using True by (simp add: readIdentifier_loop.simps[of l])
  next
    case False
    then show ?thesis using 1 by (simp add: readIdentifier_loop.simps[of l] scanned_refl)
  qed
qed

lemma scanned_readDigits: "lexer_inv l \<Longrightarrow> scanned l (readDigits l)"
proof (induction l rule: readDigits.induct)
  case (1 l)
  show ?case
  proof (cases "isDigit (ch l)")
    case True
    then have nz: "ch l \<noteq> CHR 0x00" by auto
    have "scanned (readChar l) (readDigits (readChar l))"
      using 1 True by simp
    with scanned_readChar[OF "1.prems" nz] have "scanned l (readDigits (readChar l))"
      by (rule scanned_trans)
    then show ?thesis using True by (simp add: readDigits.simps[of l])
  next
    case False
    then show ?thesis using 1 by (simp add: readDigits.simps[of l] scanned_refl)
  qed
qed

lemma scanned_readString_loop:
  "lexer_inv l \<Longrightarrow> ch l \<noteq> CHR 0x00 \<Longrightarrow> scanned l (readString_loop l)"
proof (induction l rule: readString_loop.induct)
  case (1 l)
  let ?l1 = "readChar l"
  have s1: "scanned l ?l1" using 1 by (simp add: scanned_readChar)
  show ?case
  proof (cases "ch ?l1 = CHR 0x22 \<or> ch ?l1 = CHR 0x00")
    case True
    then show ?thesis using s1 by (simp add: readString_loop.simps[of l] Let_def)
  next
    case False
    then have "scanned ?l1 (readString_loop ?l1)"
      using 1 by simp
    with s1 have "scanned l (readString_loop ?l1)" by (rule scanned_trans)
    then show ?thesis using False by (simp add: readString_loop.simps[of l] Let_def)
  qed
qed

lemma scanned_bound: "scanned a b \<Longrightarrow> position a \<le> length (input a) \<Longrightarrow> position b \<le> length (input b)"
  by (simp add: scanned_def)

lemma scanned_fields: "scanned a b \<Longrightarrow> input b = input a \<and> lexer_inv b \<and> position a \<le> position b"
  by (simp add: scanned_def)

lemma inv_next:
  assumes "lexer_inv l" "ch l \<noteq> CHR 0x00"
  shows "position (readChar l) \<le> length (input l)"
proof -
  have "position l < length (input l)" using assms by (rule inv_ch_nonzero)
  moreover have "readPosition l = position l + 1" using assms(1) by (simp add: lexer_inv_def)
  ultimately show ?thesis by simp
qed

lemma inv_pos: "lexer_inv l \<Longrightarrow> position (readChar l) = position l + 1"
  by (simp add: lexer_inv_def)

lemma slice_Inr: "a \<le> b \<Longrightarrow> b \<le> length s \<Longrightarrow> slice s a b = Inr (take (b - a) (drop a s))"
  by (simp add: slice_def)

lemma readString_ok:
  assumes "lexer_inv l" "ch l \<noteq> CHR 0x00"
  shows "\<exists>s l'. readString l = Inr (s, l') \<and> scanned (readChar l) l'"
proof -
  let ?l1 = "readChar l"
  have sc: "scanned ?l1 (readString_loop l)"
  proof (cases "ch ?l1 = CHR 0x22 \<or> ch ?l1 = CHR 0x00")
    case True
    then have "readString_loop l = ?l1" by (simp add: readString_loop.simps[of l] Let_def)
    then show ?thesis by (simp add: scanned_refl)
  next
    case False
    then have "readString_loop l = readString_loop ?l1"
      by (simp add: readString_loop.simps[of l] Let_def)
    moreover have "scanned ?l1 (readString_loop ?l1)"
      using False by (intro scanned_readString_loop) simp_all
    ultimately show ?thesis by simp
  qed
  have b: "position ?l1 \<le> length (input ?l1)" using inv_next[OF assms] by simp
  have "position (readString_loop l) \<le> length (input (readString_loop l))"
    using scanned_bound[OF sc b] .
  moreover have "position l + 1 \<le> position (readString_loop l)"
    using scanned_fields[OF sc] inv_pos[OF assms(1)] by simp
  ultimately show ?thesis using sc by (simp add: readString_def Let_def slice_Inr)
qed

lemma readIdentifier_ok:
  assumes "lexer_inv l" "isLetter (ch l)"
  shows "\<exists>s l'. readIdentifier l = Inr (s, l') \<and> scanned (readChar l) l'"
proof -
  let ?l1 = "readChar l"
  have nz: "ch l \<noteq> CHR 0x00" using assms(2) by auto
  have eq: "readIdentifier_loop l = readIdentifier_loop ?l1"
    using assms(2) by (simp add: readIdentifier_loop.simps[of l])
  have sc: "scanned ?l1 (readIdentifier_loop l)"
    unfolding eq by (rule scanned_readIdentifier_loop) simp
  have b: "position ?l1 \<le> length (input ?l1)" using inv_next[OF assms(1) nz] by simp
  have "position (readIdentifier_loop l) \<le> length (input (readIdentifier_loop l))"
    using scanned_bound[OF sc b] .
  moreover have "position l \<le> position (readIdentifier_loop l)"
    using scanned_fields[OF sc] inv_pos[OF assms(1)] by simp
  ultimately show ?thesis using sc by (simp add: readIdentifier_def Let_def slice_Inr)
qed

lemma readNumber_ok:
  assumes "lexer_inv l" "isDigit (ch l)"
  shows "\<exists>s l'. readNumber l = Inr (s, l') \<and> scanned (readChar l) l'"
proof -
  let ?l1 = "readChar l"
  let ?d = "readDigits l"
  let ?l2 = "if ch ?d = CHR ''.'' then readDigits (readChar ?d) else ?d"
  have nz: "ch l \<noteq> CHR 0x00" using assms(2) by auto
  have eq: "readDigits l = readDigits ?l1"
    using assms(2) by (simp add: readDigits.simps[of l])
  have sc1: "scanned ?l1 ?d"
    unfolding eq by (rule scanned_readDigits) simp
  have invd: "lexer_inv ?d" using scanned_fields[OF sc1] by simp
  have sc2: "scanned ?d ?l2"
  proof (cases "ch ?d = CHR ''.''")
    case True
    then have "ch ?d \<noteq> CHR 0x00" by simp
    then have "scanned ?d (readChar ?d)" using invd by (simp add: scanned_readChar)
    moreover have "scanned (readChar ?d) (readDigits (readChar ?d))"
      by (rule scanned_readDigits) simp
    ultimately show ?thesis using True by (auto intro: scanned_trans)
  next
    case False
    then show ?thesis using invd by (simp add: scanned_refl)
  qed
  have sc: "scanned ?l1 ?l2" using sc1 sc2 by (rule scanned_trans)
  have b: "position ?l1 \<le> length (input ?l1)" using inv_next[OF assms(1) nz] by simp
  have "position ?l2 \<le> length (input ?l2)"
    using scanned_bound[OF sc b] .
  moreover have "position l \<le> position ?l2"
    using scanned_fields[OF sc] inv_pos[OF assms(1)] by simp
  ultimately show ?thesis using sc by (simp add: readNumber_def Let_def slice_Inr)
qed

lemma scanned_advanced: "scanned a b \<Longrightarrow> advanced a b"
  by (simp add: scanned_def advanced_def)

lemma advanced_readChar: "lexer_inv l \<Longrightarrow> advanced l (readChar l)"
  by (simp add: advanced_def lexer_inv_def)

lemma advanced_trans: "advanced a b \<Longrightarrow> advanced b c \<Longrightarrow> advanced a c"
  by (auto simp: advanced_def)

lemma lex_ok_if: "(c \<Longrightarrow> lex_ok m a) \<Longrightarrow> (\<not> c \<Longrightarrow> lex_ok m b) \<Longrightarrow> lex_ok m (if c then a else b)"
  by simp

lemma lex_ok_emit: "lex_ok m (emit t lit m)"
  by (simp add: lex_ok_def emit_def advanced_def)

lemma lex_ok_twoChar: "lex_ok m (twoChar c d s m)"
  by (simp add: lex_ok_def emit_def twoChar_def advanced_def Let_def lexer_inv_def)

lemma lex_ok_readString:
  assumes "lexer_inv m" "ch m \<noteq> CHR 0x00"
  shows "lex_ok m (andThen (readString m) (\<lambda>(lit, l1). emit STRING lit l1))"
proof -
  obtain s l' where r: "readString m = Inr (s, l')" and sc: "scanned (readChar m) l'"
    using readString_ok[OF assms] by blast
  have "advanced (readChar m) (readChar l')"
    using scanned_advanced[OF sc] advanced_readChar[of l'] scanned_fields[OF sc]
    by (blast intro: advanced_trans)
  then show ?thesis using r by (simp add: lex_ok_def emit_def)
qed

lemma lex_ok_readIdentifier:
  assumes "lexer_inv m" "isLetter (ch m)"
  shows "lex_ok m (andThen (readIdentifier m)
           (\<lambda>(lit, l1). Inr (\<lparr>Type = lookupIdent lit, Literal = lit\<rparr>, l1)))"
proof -
  obtain s l' where r: "readIdentifier m = Inr (s, l')" and sc: "scanned (readChar m) l'"
    using readIdentifier_ok[OF assms] by blast
  then show ?thesis by (simp add: lex_ok_def scanned_advanced)
qed

lemma lex_ok_readNumber:
  assumes "lexer_inv m" "isDigit (ch m)"
  shows "lex_ok m (andThen (readNumber m) (\<lambda>(lit, l1).
          if CHR ''.'' \<in> set lit then Inr (\<lparr>Type = FLOAT, Literal = lit\<rparr>, l1)
          else Inr (\<lparr>Type = INT_T, Literal = lit\<rparr>, l1)))"
proof -
  obtain s l' where r: "readNumber m = Inr (s, l')" and sc: "scanned (readChar m) l'"
    using readNumber_ok[OF assms] by blast
  then show ?thesis by (simp add: lex_ok_def scanned_advanced)
qed

lemma NextToken_lex_ok:
  assumes "lexer_inv l"
  shows "lex_ok (skipWhitespace l) (NextToken l)"
proof -
  let ?m = "skipWhitespace l"
  have inv: "lexer_inv ?m" using scanned_skipWhitespace[OF assms] by (simp add: scanned_def)
  show ?thesis
    unfolding NextToken_def Let_def
    by (intro lex_ok_if lex_ok_emit lex_ok_twoChar lex_ok_readString lex_ok_readIdentifier
          lex_ok_readNumber inv) simp_all
qed

lemma NextToken_ok:
  assumes "lexer_inv l"
  shows "\<exists>tok l'. NextToken l = Inr (tok, l') \<and> lexer_inv l' \<and> input l' = input l
           \<and> position l < position l'"
proof -
  let ?m = "skipWhitespace l"
  have sc: "scanned l ?m" by (rule scanned_skipWhitespace[OF assms])
  then have inv: "lexer_inv ?m" and inp: "input ?m = input l" and pos: "position l \<le> position ?m"
    by (simp_all add: scanned_def)
  obtain tok l' where r: "NextToken l = Inr (tok, l')" and a: "advanced (readChar ?m) l'"
    using NextToken_lex_ok[OF assms] by (auto simp: lex_ok_def)
  have "position ?m < position l'" using a inv_pos[OF inv] by (simp add: advanced_def)
  then show ?thesis using r a inp pos by (simp add: advanced_def)
qed

lemma NextToken_EOF:
  assumes "lexer_inv l" "length (input l) \<le> position l"
  shows "NextToken l = Inr (\<lparr>Type = EOF, Literal = []\<rparr>, readChar l)"
proof -
  have z: "ch l = CHR 0x00" using assms by (rule inv_exhausted)
  then have "skipWhitespace l = l" by (simp add: skipWhitespace_id)
  then show ?thesis using z by (simp add: NextToken_def emit_def)
qed

lemma NextTokens_reach:
  "lexer_inv l \<Longrightarrow> \<exists>ts l'. NextTokens n l = Inr (ts, l') \<and> lexer_inv l' \<and> input l' = input l
      \<and> position l \<le> position l'"
proof (induction n arbitrary: l)
  case 0
  then show ?case by simp
next
  case (Suc n)
  obtain tok l1 where a: "NextToken l = Inr (tok, l1)" "lexer_inv l1" "input l1 = input l"
      "position l < position l1"
    using NextToken_ok[OF Suc.prems] by blast
  obtain ts l2 where b: "NextTokens n l1 = Inr (ts, l2)" "lexer_inv l2" "input l2 = input l1"
      "position l1 \<le> position l2"
    using Suc.IH[OF a(2)] by blast
  show ?case using a b by simp
qed

lemma NextTokens_EOF:
  "lexer_inv l \<Longrightarrow> length (input l) \<le> position l \<Longrightarrow>
   \<exists>l'. NextTokens m l = Inr (replicate m \<lparr>Type = EOF, Literal = []\<rparr>, l') \<and> position l \<le> position l'"
proof (induction m arbitrary: l)
  case 0
  then show ?case by simp
next
  case (Suc m)
  have a: "NextToken l = Inr (\<lparr>Type = EOF, Literal = []\<rparr>, readChar l)"
    using Suc.prems by (rule NextToken_EOF)
  have p: "position (readChar l) = position l + 1" using Suc.prems(1) by (rule inv_pos)
  then have "length (input (readChar l)) \<le> position (readChar l)" using Suc.prems(2) by simp
  then obtain l' where b: "NextTokens m (readChar l) = Inr (replicate m \<lparr>Type = EOF, Literal = []\<rparr>, l')"
      "position (readChar l) \<le> position l'"
    using Suc.IH[of "readChar l"] by auto
  show ?case using a b p by simp
qed

text \<open>
  Claim C8. In every state that calls of \<open>NextToken\<close> reach from \<open>NewLexer s\<close>, the next
  call returns and moves \<open>position\<close> forward; and once \<open>position\<close> has reached the end of
  the input, any number \<open>m\<close> of further calls return \<open>m\<close> tokens \<open>EOF\<close> with the empty
  literal.
\<close>

theorem lexer_EOF_idempotent:
  assumes "NextTokens n (NewLexer s) = Inr (ts, l)"
  shows "(\<exists>tok l'. NextToken l = Inr (tok, l') \<and> position l < position l') \<and>
         (length s \<le> position l \<longrightarrow>
            (\<exists>l'. NextTokens m l = Inr (replicate m \<lparr>Type = EOF, Literal = []\<rparr>, l')
                  \<and> position l \<le> position l'))"
proof -
  have "lexer_inv (NewLexer s)" by (rule lexer_inv_NewLexer)
  from NextTokens_reach[OF this, of n] assms
  have inv: "lexer_inv l" and inp: "input l = s" by (auto simp: lexer_inv_NewLexer)
  show ?thesis using NextToken_ok[OF inv] NextTokens_EOF[OF inv, of m] inp by blast
qed

theorem lexer_EOF_idempotent_witness:
  "(\<exists>tok l'. NextToken \<lparr>input = ''ab'', position = 3, readPosition = 4, ch = CHR 0x00\<rparr> = Inr (tok, l')
       \<and> 3 < position l') \<and>
   (\<exists>l'. NextTokens 5 \<lparr>input = ''ab'', position = 3, readPosition = 4, ch = CHR 0x00\<rparr>
            = Inr (replicate 5 \<lparr>Type = EOF, Literal = []\<rparr>, l') \<and> 3 \<le> position l')"
proof -
  have h: "NextTokens 2 (NewLexer ''ab'')
     = Inr ([\<lparr>Type = IDENT, Literal = ''ab''\<rparr>, \<lparr>Type = EOF, Literal = []\<rparr>],
            \<lparr>input = ''ab'', position = 3, readPosition = 4, ch = CHR 0x00\<rparr>)"
    by code_simp
  show ?thesis using lexer_EOF_idempotent[OF h, of 5] by simp
qed

text \<open>
  Claim C10. No call of \<open>NextToken\<close> returns a token of kind \<open>LE\<close> or \<open>GE\<close>: at \<open><\<close> and
  at \<open>>\<close> the lexer returns \<open>LT\<close> and \<open>GT\<close> with the single byte as literal, whatever
  follows, so that \<open><=\<close> is \<open>LT\<close> then \<open>ASSIGN\<close> and \<open>>=\<close> is \<open>GT\<close> then \<open>ASSIGN\<close>; the
  table of precedences has entries for \<open>LE\<close> and \<open>GE\<close> all the same.
\<close>

theorem lexer_never_LE_GE:
  "(\<forall>l tok l'. NextToken l = Inr (tok, l') \<longrightarrow> Type tok \<noteq> LE \<and> Type tok \<noteq> GE) \<and>
   (\<forall>l. ch (skipWhitespace l) = CHR ''<'' \<longrightarrow>
      NextToken l = Inr (\<lparr>Type = LT, Literal = ''<''\<rparr>, readChar (skipWhitespace l))) \<and>
   (\<forall>l. ch (skipWhitespace l) = CHR ''>'' \<longrightarrow>
      NextToken l = Inr (\<lparr>Type = GT, Literal = ''>''\<rparr>, readChar (skipWhitespace l))) \<and>
   NextTokens 3 (NewLexer ''<='')
     = Inr ([\<lparr>Type = LT, Literal = ''<''\<rparr>, \<lparr>Type = ASSIGN, Literal = ''=''\<rparr>,
             \<lparr>Type = EOF, Literal = []\<rparr>],
            \<lparr>input = ''<='', position = 3, readPosition = 4, ch = CHR 0x00\<rparr>) \<and>
   NextTokens 3 (NewLexer ''>='')
     = Inr ([\<lparr>Type = GT, Literal = ''>''\<rparr>, \<lparr>Type = ASSIGN, Literal = ''=''\<rparr>,
             \<lparr>Type = EOF, Literal = []\<rparr>],
            \<lparr>input = ''>='', position = 3, readPosition = 4, ch = CHR 0x00\<rparr>) \<and>
   precedences LE = Some LESSGREATER \<and> precedences GE = Some LESSGREATER"
proof -
  have lk: "\<And>s. lookupIdent s \<noteq> LE \<and> lookupIdent s \<noteq> GE"
    by (simp add: lookupIdent_def token_defs)
  have a: "\<And>l tok l'. NextToken l = Inr (tok, l') \<Longrightarrow> Type tok \<noteq> LE \<and> Type tok \<noteq> GE"
    unfolding NextToken_def Let_def emit_def twoChar_def
    using lk by (auto simp: andThen_eq_Inr token_defs split: if_splits)
  have b: "\<And>l. ch (skipWhitespace l) = CHR ''<'' \<Longrightarrow>
      NextToken l = Inr (\<lparr>Type = LT, Literal = ''<''\<rparr>, readChar (skipWhitespace l))"
    by (simp add: NextToken_def emit_def string_of_byte_def)
  have c: "\<And>l. ch (skipWhitespace l) = CHR ''>'' \<Longrightarrow>
      NextToken l = Inr (\<lparr>Type = GT, Literal = ''>''\<rparr>, readChar (skipWhitespace l))"
    by (simp add: NextToken_def emit_def string_of_byte_def)
  have d: "NextTokens 3 (NewLexer ''<='')
     = Inr ([\<lparr>Type = LT, Literal = ''<''\<rparr>, \<lparr>Type = ASSIGN, Literal = ''=''\<rparr>,
             \<lparr>Type = EOF, Literal = []\<rparr>],
            \<lparr>input = ''<='', position = 3, readPosition = 4, ch = CHR 0x00\<rparr>)"
    by code_simp
  have e: "NextTokens 3 (NewLexer ''>='')
     = Inr ([\<lparr>Type = GT, Literal = ''>''\<rparr>, \<lparr>Type = ASSIGN, Literal = ''=''\<rparr>,
             \<lparr>Type = EOF, Literal = []\<rparr>],
            \<lparr>input = ''>='', position = 3, readPosition = 4, ch = CHR 0x00\<rparr>)"
    by code_simp
  have f: "precedences LE = Some LESSGREATER \<and> precedences GE = Some LESSGREATER"
    by (simp add: precedences_def token_defs)
  show ?thesis using a b c d e f by simp
qed

theorem lexer_never_LE_GE_witness:
  "Type \<lparr>Type = LT, Literal = ''<''\<rparr> \<noteq> LE \<and> Type \<lparr>Type = LT, Literal = ''<''\<rparr> \<noteq> GE \<and>
   NextToken (NewLexer ''<='')
     = Inr (\<lparr>Type = LT, Literal = ''<''\<rparr>, readChar (skipWhitespace (NewLexer ''<='')))"
proof -
  have c: "ch (skipWhitespace (NewLexer ''<='')) = CHR ''<''" by code_simp
  have h: "NextToken (NewLexer ''<='')
     = Inr (\<lparr>Type = LT, Literal = ''<''\<rparr>, readChar (skipWhitespace (NewLexer ''<='')))"
    using lexer_never_LE_GE c by blast
  show ?thesis using lexer_never_LE_GE h by blast
qed

lemma readString_loop_body:
  assumes "input l = pre @ c # body @ rest" "readPosition l = length pre + 1"
    "CHR 0x22 \<notin> set body" "CHR 0x00 \<notin> set body"
    "rest = [] \<or> hd rest = CHR 0x22"
  shows "readString_loop l =
           l\<lparr>ch := (if rest = [] then CHR 0x00 else CHR 0x22),
             position := length pre + 1 + length body,
             readPosition := length pre + 2 + length body\<rparr>"
  using assms
proof (induction body arbitrary: pre c l)
  case Nil
  have "ch (readChar l) = (if rest = [] then CHR 0x00 else CHR 0x22)"
    using Nil by (cases rest) (auto simp: nth_append)
  then show ?case using Nil
    by (simp add: readString_loop.simps[of l] Let_def readChar_def)
next
  case (Cons b body)
  let ?l1 = "readChar l"
  have c1: "ch ?l1 = b" using Cons.prems by (simp add: nth_append)
  have nb: "b \<noteq> CHR 0x22" "b \<noteq> CHR 0x00" using Cons.prems by auto
  have step: "readString_loop l = readString_loop ?l1"
    using c1 nb by (simp add: readString_loop.simps[of l] Let_def)
  have "readString_loop ?l1 =
           ?l1\<lparr>ch := (if rest = [] then CHR 0x00 else CHR 0x22),
             position := length (pre @ [c]) + 1 + length body,
             readPosition := length (pre @ [c]) + 2 + length body\<rparr>"
    using Cons.prems by (intro Cons.IH[where c = b]) simp_all
  then show ?case unfolding step by (simp add: readChar_def)
qed

text \<open>
  Claim C9, amended. At an opening quote, when the bytes \<open>body\<close> that follow contain
  neither a quote nor a NUL byte and are followed by the closing quote or by the end of the
  input, \<open>NextToken\<close> returns a \<open>STRING\<close> token whose literal is \<open>body\<close>, byte for byte (a
  backslash is a byte like any other); when the input ends there, the call after it
  returns \<open>EOF\<close>: no failure and no \<open>ILLEGAL\<close> token.
\<close>

theorem string_literal_verbatim:
  assumes "lexer_inv l" "input l = pre @ [CHR 0x22] @ body @ rest" "position l = length pre"
    "CHR 0x22 \<notin> set body" "CHR 0x00 \<notin> set body" "rest = [] \<or> hd rest = CHR 0x22"
  shows "\<exists>l'. NextToken l = Inr (\<lparr>Type = STRING, Literal = body\<rparr>, l') \<and>
           (rest = [] \<longrightarrow> (\<exists>l''. NextToken l' = Inr (\<lparr>Type = EOF, Literal = []\<rparr>, l'')))"
proof -
  let ?l1 = "l\<lparr>ch := (if rest = [] then CHR 0x00 else CHR 0x22),
             position := length pre + 1 + length body,
             readPosition := length pre + 2 + length body\<rparr>"
  have rp: "readPosition l = length pre + 1" using assms(1,3) by (simp add: lexer_inv_def)
  have c: "ch l = CHR 0x22" using assms(1,2,3) by (simp add: lexer_inv_def nth_append)
  then have sk: "skipWhitespace l = l" by (simp add: skipWhitespace_id isWhitespace_def)
  have loop: "readString_loop l = ?l1"
    using assms(2) rp assms(4,5,6) by (intro readString_loop_body) simp_all
  have rs: "readString l = Inr (body, ?l1)"
    using assms(2,3) by (simp add: readString_def loop slice_def)
  have nt: "NextToken l = Inr (\<lparr>Type = STRING, Literal = body\<rparr>, readChar ?l1)"
    using c sk rs by (simp add: NextToken_def emit_def)
  have "\<exists>l''. NextToken (readChar ?l1) = Inr (\<lparr>Type = EOF, Literal = []\<rparr>, l'')" if "rest = []"
  proof -
    have "length (input (readChar ?l1)) \<le> position (readChar ?l1)"
      using that assms(2) by simp
    then show ?thesis using NextToken_EOF[of "readChar ?l1"] by simp
  qed
  then show ?thesis using nt by blast
qed

theorem string_literal_verbatim_witness:
  "\<exists>l'. NextToken (NewLexer [CHR 0x22, CHR ''a'', CHR 0x5C, CHR ''n''])
      = Inr (\<lparr>Type = STRING, Literal = [CHR ''a'', CHR 0x5C, CHR ''n'']\<rparr>, l') \<and>
       (\<exists>l''. NextToken l' = Inr (\<lparr>Type = EOF, Literal = []\<rparr>, l''))"
proof -
  let ?s = "[CHR 0x22, CHR ''a'', CHR 0x5C, CHR ''n'']"
  have "\<exists>l'. NextToken (NewLexer ?s)
          = Inr (\<lparr>Type = STRING, Literal = [CHR ''a'', CHR 0x5C, CHR ''n'']\<rparr>, l') \<and>
        ([] = ([] :: string) \<longrightarrow> (\<exists>l''. NextToken l' = Inr (\<lparr>Type = EOF, Literal = []\<rparr>, l'')))"
    by (rule string_literal_verbatim[where pre = "[]"]) (simp_all add: lexer_inv_NewLexer)
  then show ?thesis by simp
qed

text \<open>
  Claim C9 as stated fails when a NUL byte stands between the quotes: the byte 0 is the
  lexer's mark for the end of the input, so the literal of the five bytes
  \<open>"a\<close>, NUL, \<open>b"\<close> is \<open>a\<close>, not the three bytes between the quotes, and the next token is
  the identifier \<open>b\<close>.
\<close>

theorem string_literal_NUL_counterexample:
  "NextTokens 2 (NewLexer [CHR 0x22, CHR ''a'', CHR 0x00, CHR ''b'', CHR 0x22])
     = Inr ([\<lparr>Type = STRING, Literal = ''a''\<rparr>, \<lparr>Type = IDENT, Literal = ''b''\<rparr>],
            \<lparr>input = [CHR 0x22, CHR ''a'', CHR 0x00, CHR ''b'', CHR 0x22], position = 4,
              readPosition = 5, ch = CHR 0x22\<rparr>)"
  by code_simp

section \<open>Parses of given sources\<close>

text \<open>
  With identifiers and integers as operands the expressions of the specification print as
  it states, and for every two binary operators \<open>o1\<close>, \<open>o2\<close> that the lexer produces,
  \<open>a o1 b o2 c\<close> is \<open>(a o1 (b o2 c))\<close> when \<open>o2\<close> has the higher precedence and
  \<open>((a o1 b) o2 c)\<close> otherwise: operators of one level associate to the left. The
  operators are the keys of the table, and the levels are in its order.
\<close>

lemma precedence_on_identifiers:
  "printExpression 10 ''a + b * c'' = Inr (Some (Some ''(a + (b * c))''), []) \<and>
   printExpression 10 ''a < b == c'' = Inr (Some (Some ''((a < b) == c)''), []) \<and>
   printExpression 10 ''a == b < c'' = Inr (Some (Some ''(a == (b < c))''), []) \<and>
   printExpression 10 ''-a + b'' = Inr (Some (Some ''((-a) + b)''), []) \<and>
   printExpression 10 ''123 + 4 * 5'' = Inr (Some (Some ''(123 + (4 * 5))''), []) \<and>
   list_all (\<lambda>(o1, o2).
     printExpression 10 (''a '' @ o1 @ '' b '' @ o2 @ '' c'')
       = Inr (Some (Some (if precedenceOf o1 < precedenceOf o2
                          then ''(a '' @ o1 @ '' (b '' @ o2 @ '' c))''
                          else ''((a '' @ o1 @ '' b) '' @ o2 @ '' c)'')), []))
     (List.product binaryOperators binaryOperators) \<and>
   map precedences binaryOperators
     = map Some [OR_PREC, AND_PREC, EQUALS, EQUALS, LESSGREATER, LESSGREATER, SUM_PREC, SUM_PREC,
                 PRODUCT, PRODUCT, PRODUCT, CALL] \<and>
   LOWEST < OR_PREC \<and> OR_PREC < AND_PREC \<and> AND_PREC < EQUALS \<and> EQUALS < LESSGREATER \<and>
   LESSGREATER < SUM_PREC \<and> SUM_PREC < PRODUCT \<and> PRODUCT < PREFIX \<and> PREFIX < CALL"
  by code_simp

lemma precedences_keys: "dom precedences = set binaryOperators \<union> {LE, GE}"
  by (auto simp: precedences_def binaryOperators_def token_defs split: if_splits)

text \<open>
  Claim C3 does not hold of the code. Its four sources parse as it states (the lemma
  above), but binary operators are not folded when an operand is a float literal: the
  case \<open>FLOAT\<close> of \<open>parsePrefixExpression\<close> calls \<open>nextToken\<close> after it has built the
  literal, which the cases \<open>INT\<close>, \<open>STRING\<close> and \<open>IDENT\<close> do not, so that the loop of
  \<open>parseExpression\<close> looks at the operand after the operator. \<open>1.5 + 2\<close> is the expression
  \<open>1.5\<close>, where \<open>1 + 2\<close> is \<open>(1 + 2)\<close>, and \<open>a + 1.5 * c\<close> is \<open>(a + 1.5)\<close>, where
  \<open>a + 15 * c\<close> is \<open>(a + (15 * c))\<close>; the operator is lost without an error, and the
  program of \<open>1.5 + 2\<close> is the two statements \<open>1.5\<close> and \<open>2\<close>.
\<close>

theorem float_operand_drops_operator:
  "printExpression 10 ''1.5 + 2'' = Inr (Some (Some ''1.5''), []) \<and>
   printExpression 10 ''1 + 2'' = Inr (Some (Some ''(1 + 2)''), []) \<and>
   printExpression 10 ''a + 1.5 * c'' = Inr (Some (Some ''(a + 1.5)''), []) \<and>
   printExpression 10 ''a + 15 * c'' = Inr (Some (Some ''(a + (15 * c))''), []) \<and>
   parse 20 ''1.5 + 2'' =
     Inr (Program
       [ExpressionStatement \<lparr>Type = ADD, Literal = ''+''\<rparr>
          (Some (FloatLiteral \<lparr>Type = FLOAT, Literal = ''1.5''\<rparr>)),
        ExpressionStatement \<lparr>Type = INT_T, Literal = ''2''\<rparr>
          (Some (IntegerLiteral \<lparr>Type = INT_T, Literal = ''2''\<rparr> 2))],
      [])"
  by code_simp

text \<open>
  Claim C4. The chain of the specification parses without an error into one
  \<open>IfStatement\<close> with the two \<open>ElseIfs\<close> for \<open>b\<close> and \<open>c\<close>, in this order, and the
  \<open>ElseBlock\<close> of the final \<open>else\<close>. After a plain \<open>else\<close> nothing more is attached: in the
  second source the statement ends with its \<open>ElseBlock\<close>, the \<open>else\<close> that follows is an
  error and the \<open>if\<close> after it a statement of its own.
\<close>

theorem else_if_chain:
  "parse 20 ''if (a) {1} else if (b) {2} else if (c) {3} else {4}'' =
     Inr (Program
       [IfStatement \<lparr>Type = IF, Literal = ''if''\<rparr>
         (Some (Ident (Identifier \<lparr>Type = IDENT, Literal = ''a''\<rparr> ''a'')))
         (Some (BlockStatement \<lparr>Type = LBRACE, Literal = ''{''\<rparr>
             [ExpressionStatement \<lparr>Type = INT_T, Literal = ''1''\<rparr>
               (Some (IntegerLiteral \<lparr>Type = INT_T, Literal = ''1''\<rparr> 1))]))
         [ElseIfClause
           (Some (Ident (Identifier \<lparr>Type = IDENT, Literal = ''b''\<rparr> ''b'')))
           (Some (BlockStatement \<lparr>Type = LBRACE, Literal = ''{''\<rparr>
               [ExpressionStatement \<lparr>Type = INT_T, Literal = ''2''\<rparr>
                 (Some (IntegerLiteral \<lparr>Type = INT_T, Literal = ''2''\<rparr> 2))])),
          ElseIfClause
           (Some (Ident (Identifier \<lparr>Type = IDENT, Literal = ''c''\<rparr> ''c'')))
           (Some (BlockStatement \<lparr>Type = LBRACE, Literal = ''{''\<rparr>
               [ExpressionStatement \<lparr>Type = INT_T, Literal = ''3''\<rparr>
                 (Some (IntegerLiteral \<lparr>Type = INT_T, Literal = ''3''\<rparr> 3))]))]
         (Some (BlockStatement \<lparr>Type = LBRACE, Literal = ''{''\<rparr>
             [ExpressionStatement \<lparr>Type = INT_T, Literal = ''4''\<rparr>
               (Some (IntegerLiteral \<lparr>Type = INT_T, Literal = ''4''\<rparr> 4))]))],
      []) \<and>
   parse 20 ''if (a) {1} else {2} else if (b) {3}'' =
     Inr (Program
       [IfStatement \<lparr>Type = IF, Literal = ''if''\<rparr>
         (Some (Ident (Identifier \<lparr>Type = IDENT, Literal = ''a''\<rparr> ''a'')))
         (Some (BlockStatement \<lparr>Type = LBRACE, Literal = ''{''\<rparr>
             [ExpressionStatement \<lparr>Type = INT_T, Literal = ''1''\<rparr>
               (Some (IntegerLiteral \<lparr>Type = INT_T, Literal = ''1''\<rparr> 1))]))
         []
         (Some (BlockStatement \<lparr>Type = LBRACE, Literal = ''{''\<rparr>
             [ExpressionStatement \<lparr>Type = INT_T, Literal = ''2''\<rparr>
               (Some (IntegerLiteral \<lparr>Type = INT_T, Literal = ''2''\<rparr> 2))])),
        IfStatement \<lparr>Type = IF, Literal = ''if''\<rparr>
         (Some (Ident (Identifier \<lparr>Type = IDENT, Literal = ''b''\<rparr> ''b'')))
         (Some (BlockStatement \<lparr>Type = LBRACE, Literal = ''{''\<rparr>
             [ExpressionStatement \<lparr>Type = INT_T, Literal = ''3''\<rparr>
               (Some (IntegerLiteral \<lparr>Type = INT_T, Literal = ''3''\<rparr> 3))]))
         [] None],
      [''no prefix parse function for else found'', ''unexpected token: else''])"
  by code_simp

text \<open>
  Claim C5. \<open>void test() { return; }\<close> parses into a program of one statement, the
  function \<open>test\<close> without parameters whose return type is the token of \<open>void\<close> and whose
  body is one \<open>return\<close> without a value; no error is recorded.
\<close>

theorem void_test_function:
  "parse 20 ''void test() { return; }'' =
     Inr (Program
       [FunctionStatement \<lparr>Type = TYPE_T, Literal = ''void''\<rparr>
         (Some (Identifier \<lparr>Type = IDENT, Literal = ''test''\<rparr> ''test''))
         []
         \<lparr>Type = TYPE_T, Literal = ''void''\<rparr>
         (Some (BlockStatement \<lparr>Type = LBRACE, Literal = ''{''\<rparr>
             [ReturnStatement \<lparr>Type = RETURN, Literal = ''return''\<rparr> None]))],
      [])"
  by code_simp

section \<open>Every parse returns\<close>

lemma weight_le: "weight t \<le> 1"
  by (simp add: weight_def)

lemma remaining_pos_cur: "Type (curToken p) \<noteq> EOF \<Longrightarrow> 0 < remaining p"
  by (simp add: remaining_def weight_def)

lemma remaining_pos_peek: "Type (peekToken p) \<noteq> EOF \<Longrightarrow> 0 < remaining p"
  by (simp add: remaining_def weight_def)

lemma nextToken_returns:
  assumes "parser_inv p"
  shows "\<exists>p'. nextToken p = Inr p' \<and> parser_inv p' \<and> remaining p' \<le> remaining p - 1 \<and>
           errors p' = errors p \<and> curToken p' = peekToken p \<and> peekToken p' = peekPeek p"
proof -
  let ?l = "lexer p"
  have inv: "lexer_inv ?l" using assms by (simp add: parser_inv_def)
  obtain tok l' where nt: "NextToken ?l = Inr (tok, l')" and inv': "lexer_inv l'"
      and inp: "input l' = input ?l" and pos: "position ?l < position l'"
    using NextToken_ok[OF inv] by blast
  let ?p' = "p\<lparr>curToken := peekToken p, peekToken := peekPeek p, peekPeek := tok, lexer := l'\<rparr>"
  have r: "nextToken p = Inr ?p'" by (simp add: nextToken_def nt)
  have wc: "weight (curToken p) \<le> 1" and wp: "weight (peekToken p) \<le> 1"
    and wpp: "weight (peekPeek p) \<le> 1" and wt: "weight tok \<le> 1"
    by (rule weight_le)+
  show ?thesis
  proof (cases "position ?l < length (input ?l)")
    case True
    then have "length (input ?l) - position l' < length (input ?l) - position ?l"
      using pos by simp
    then have "remaining ?p' \<le> remaining p - 1"
      using wc wp wpp wt by (simp add: remaining_def inp)
    then show ?thesis using r inv' by (simp add: parser_inv_def)
  next
    case False
    then have "NextToken ?l = Inr (\<lparr>Type = EOF, Literal = []\<rparr>, readChar ?l)"
      using inv by (intro NextToken_EOF) simp_all
    then have tok: "weight tok = 0" using nt by (simp add: weight_def)
    have z: "length (input ?l) - position l' = 0" "length (input ?l) - position ?l = 0"
      using False pos by simp_all
    have le: "remaining ?p' \<le> remaining p - 1"
      using wc wp wpp tok z by (auto simp: remaining_def inp weight_def)
    show ?thesis using r inv' le by (simp add: parser_inv_def)
  qed
qed

lemma stepped_refl: "parser_inv p \<Longrightarrow> stepped p p"
  by (simp add: stepped_def)

lemma stepped_trans: "stepped a b \<Longrightarrow> stepped b c \<Longrightarrow> stepped a c"
  by (auto simp: stepped_def)

lemma addError_fields [simp]:
  "lexer (addError m p) = lexer p" "curToken (addError m p) = curToken p"
  "peekToken (addError m p) = peekToken p" "peekPeek (addError m p) = peekPeek p"
  "errors (addError m p) = errors p @ [m]"
  by (simp_all add: addError_def)

lemma addError_inv [simp]: "parser_inv (addError m p) = parser_inv p"
  by (simp add: parser_inv_def)

lemma addError_remaining [simp]: "remaining (addError m p) = remaining p"
  by (simp add: remaining_def)

lemma stepped_addError: "stepped p q \<Longrightarrow> stepped p (addError m q)"
  by (simp add: stepped_def)

lemma returns_Inr [simp]: "returns p (Inr (v, q)) = stepped p q"
  by (simp add: returns_def)

lemma returns_Inl [simp]: "\<not> returns p (Inl e)"
  by (simp add: returns_def)

text \<open>Sequencing: the continuation is judged from the state the first part returns.\<close>

lemma returns_andThen:
  assumes "returns p m"
    and "\<And>v q. m = Inr (v, q) \<Longrightarrow> stepped p q \<Longrightarrow> returns q (f (v, q))"
  shows "returns p (andThen m f)"
proof -
  obtain v q where m: "m = Inr (v, q)" and s: "stepped p q"
    using assms(1) by (auto simp: returns_def)
  obtain w q' where f: "f (v, q) = Inr (w, q')" and s': "stepped q q'"
    using assms(2)[OF m s] by (auto simp: returns_def)
  show ?thesis using m f stepped_trans[OF s s'] by (simp add: returns_def)
qed

lemma returns_nextToken:
  assumes "parser_inv p"
    and "\<And>q. parser_inv q \<Longrightarrow> remaining q \<le> remaining p - 1 \<Longrightarrow> errors q = errors p \<Longrightarrow>
           curToken q = peekToken p \<Longrightarrow> peekToken q = peekPeek p \<Longrightarrow> returns q (f q)"
  shows "returns p (andThen (nextToken p) f)"
proof -
  obtain q where n: "nextToken p = Inr q" and a: "parser_inv q" "remaining q \<le> remaining p - 1"
      "errors q = errors p" "curToken q = peekToken p" "peekToken q = peekPeek p"
    using nextToken_returns[OF assms(1)] by blast
  obtain w q' where f: "f q = Inr (w, q')" and s': "stepped q q'"
    using assms(2)[OF a] by (auto simp: returns_def)
  have "stepped p q" using a by (simp add: stepped_def)
  then show ?thesis using n f stepped_trans[OF _ s'] by (simp add: returns_def)
qed

lemma stepped_self [simp]: "parser_inv p \<Longrightarrow> stepped p p"
  by (rule stepped_refl)

lemma stepped_self_addError [simp]: "parser_inv p \<Longrightarrow> stepped p (addError m p)"
  by (simp add: stepped_def)

lemma returns_callee:
  assumes "callee_ok pe M" "parser_inv p" "remaining p < M"
    and "\<And>v q. parser_inv q \<Longrightarrow> remaining q \<le> remaining p \<Longrightarrow> returns q (f (v, q))"
  shows "returns p (andThen (pe prec p) f)"
proof (rule returns_andThen)
  show "returns p (pe prec p)" using assms(1,2,3) by (simp add: callee_ok_def)
next
  fix v q assume "stepped p q"
  then show "returns q (f (v, q))" using assms(4) by (simp add: stepped_def)
qed

lemma returns_expectPeek:
  assumes "parser_inv p"
    and "\<And>q. parser_inv q \<Longrightarrow> remaining q \<le> remaining p - 1 \<Longrightarrow> Type (curToken q) = t
            \<Longrightarrow> returns q (f (True, q))"
    and "\<And>q. parser_inv q \<Longrightarrow> remaining q \<le> remaining p \<Longrightarrow> returns q (f (False, q))"
  shows "returns p (andThen (expectPeek t p) f)"
proof (cases "Type (peekToken p) = t")
  case True
  obtain q where n: "nextToken p = Inr q" and a: "parser_inv q" "remaining q \<le> remaining p - 1"
      "errors q = errors p" "curToken q = peekToken p"
    using nextToken_returns[OF assms(1)] by blast
  have e: "expectPeek t p = Inr (True, q)" using True n by (simp add: expectPeek_def)
  have "Type (curToken q) = t" using a True by simp
  from assms(2)[OF a(1,2) this] obtain w q' where f: "f (True, q) = Inr (w, q')"
    and s': "stepped q q'" by (auto simp: returns_def)
  have "stepped p q" using a by (simp add: stepped_def)
  then show ?thesis using e f stepped_trans[OF _ s'] by (simp add: returns_def)
next
  case False
  let ?q = "addError (''expected next token to be '' @ t @ '', got '' @ Type (peekToken p)
                  @ '' instead'') p"
  have e: "expectPeek t p = Inr (False, ?q)" using False by (simp add: expectPeek_def)
  have "returns ?q (f (False, ?q))" using assms(1) by (intro assms(3)) simp_all
  then obtain w q' where f: "f (False, ?q) = Inr (w, q')" and s': "stepped ?q q'"
    by (auto simp: returns_def)
  have "stepped p ?q" using assms(1) by simp
  then show ?thesis using e f stepped_trans[OF _ s'] by (simp add: returns_def)
qed

lemma skipWhitespaceTokens_returns:
  "parser_inv p \<Longrightarrow> remaining p < k \<Longrightarrow>
   \<exists>q. skipWhitespaceTokens k p = Inr q \<and> parser_inv q \<and> remaining q \<le> remaining p \<and>
       errors q = errors p"
proof (induction k arbitrary: p)
  case 0
  then show ?case by simp
next
  case (Suc k)
  show ?case
  proof (cases "Type (curToken p) = ILLEGAL \<and> Literal (curToken p) = []")
    case False
    then show ?thesis using Suc.prems by auto
  next
    case True
    then have pos: "0 < remaining p" by (intro remaining_pos_cur) (simp add: token_defs)
    obtain q where n: "nextToken p = Inr q" and a: "parser_inv q" "remaining q \<le> remaining p - 1"
        "errors q = errors p"
      using nextToken_returns[OF Suc.prems(1)] by blast
    have "remaining q < k" using a pos Suc.prems(2) by simp
    from Suc.IH[OF a(1) this] obtain q' where
      "skipWhitespaceTokens k q = Inr q'" "parser_inv q'" "remaining q' \<le> remaining q"
      "errors q' = errors q" by blast
    then show ?thesis using True n a by auto
  qed
qed

lemma returns_skipWhitespaceTokens:
  assumes "parser_inv p" "remaining p < k"
    and "\<And>q. parser_inv q \<Longrightarrow> remaining q \<le> remaining p \<Longrightarrow> returns q (f q)"
  shows "returns p (andThen (skipWhitespaceTokens k p) f)"
proof -
  obtain q where n: "skipWhitespaceTokens k p = Inr q" and a: "parser_inv q"
      "remaining q \<le> remaining p" "errors q = errors p"
    using skipWhitespaceTokens_returns[OF assms(1,2)] by blast
  obtain w q' where f: "f q = Inr (w, q')" and s': "stepped q q'"
    using assms(3)[OF a(1,2)] by (auto simp: returns_def)
  have "stepped p q" using a by (simp add: stepped_def)
  then show ?thesis using n f stepped_trans[OF _ s'] by (simp add: returns_def)
qed

lemma parsePrefixOperatorExpression_returns:
  assumes "parser_inv p" "Type (curToken p) \<noteq> EOF" "remaining p \<le> M" "callee_ok pe M"
  shows "returns p (parsePrefixOperatorExpression pe p)"
proof -
  have pos: "0 < remaining p" using assms(2) by (rule remaining_pos_cur)
  note c = returns_callee[OF assms(4)]
  show ?thesis
    unfolding parsePrefixOperatorExpression_def Let_def
    using assms(1,3) pos
    by (auto intro!: returns_nextToken c)
qed

lemma parseInfixExpression_returns:
  assumes "parser_inv p" "remaining p < M" "callee_ok pe M"
  shows "returns p (parseInfixExpression pe left p)"
proof -
  note c = returns_callee[OF assms(3)]
  show ?thesis
    unfolding parseInfixExpression_def Let_def
    using assms(1,2)
    by (auto intro!: returns_nextToken c)
qed

lemma parseTypeofExpression_returns:
  assumes "parser_inv p" "Type (curToken p) \<noteq> EOF" "remaining p \<le> M" "callee_ok pe M"
  shows "returns p (parseTypeofExpression pe p)"
proof -
  have pos: "0 < remaining p" using assms(2) by (rule remaining_pos_cur)
  note c = returns_callee[OF assms(4)]
  show ?thesis
    unfolding parseTypeofExpression_def Let_def
    using assms(1,3) pos
    by (auto intro!: returns_nextToken returns_expectPeek c)
qed


lemma cur_pos: "Type (curToken p) = t \<Longrightarrow> t \<noteq> EOF \<Longrightarrow> 0 < remaining p"
  by (simp add: remaining_def weight_def)

lemma returns_if:
  "(c \<Longrightarrow> returns p a) \<Longrightarrow> (\<not> c \<Longrightarrow> returns p b) \<Longrightarrow> returns p (if c then a else b)"
  by simp

lemma parsePrefixExpression_returns:
  assumes "parser_inv p" "remaining p < k" "callee_ok pe (remaining p)"
  shows "returns p (parsePrefixExpression pe k p)"
  unfolding parsePrefixExpression_def
  using assms(1,2)
proof (rule returns_skipWhitespaceTokens)
  fix q assume q: "parser_inv q" "remaining q \<le> remaining p"
  note c = returns_callee[OF assms(3)]
  have A: "returns q (parsePrefixOperatorExpression pe q)"
    if "Type (curToken q) = SUB \<or> Type (curToken q) = ADD"
  proof -
    have "Type (curToken q) \<noteq> EOF" using that by (auto simp: token_defs)
    with q(1) show ?thesis using q(2) assms(3) by (rule parsePrefixOperatorExpression_returns)
  qed
  have B: "returns q (parseTypeofExpression pe q)" if "Type (curToken q) = TYPEOF"
  proof -
    have "Type (curToken q) \<noteq> EOF" using that by (auto simp: token_defs)
    with q(1) show ?thesis using q(2) assms(3) by (rule parseTypeofExpression_returns)
  qed
  have P: "returns q (andThen (nextToken q) (\<lambda>p1.
         andThen (pe LOWEST p1) (\<lambda>(exp, p2).
         andThen (expectPeek RPAREN p2) (\<lambda>(ok, p3).
           if \<not> ok then Inr (None, p3) else Inr (exp, p3)))))"
    if "Type (curToken q) = LPAREN"
  proof -
    have pos: "0 < remaining q" using that by (rule cur_pos) (simp add: token_defs)
    show ?thesis using q pos by (auto intro!: returns_nextToken returns_expectPeek c)
  qed
  have F: "returns q (andThen (nextToken q) (\<lambda>p1. Inr (Some (FloatLiteral (curToken q)), p1)))"
    using q(1) by (auto intro!: returns_nextToken)
  show "returns q
         (let tok = curToken q; t = Type tok in
          if t = VOID then Inr (Some (VoidLiteral tok), q)
          else if t = IDENT then Inr (Some (Ident (Identifier tok (Literal tok))), q)
          else if t = INT_T then
            (case ParseInt (Literal tok) of
               None \<Rightarrow>
                 Inr (None, addError (''could not parse '' @ quote (Literal tok) @ '' as integer'') q)
             | Some v \<Rightarrow> Inr (Some (IntegerLiteral tok v), q))
          else if t = BOOL then parseBooleanLiteral q
          else if t = NIL then Inr (Some (NilLiteral tok), q)
          else if t = STRING then Inr (Some (StringLiteral tok (Literal tok)), q)
          else if t = FLOAT then
            (if \<not> ParseFloat_ok (Literal tok) then
               Inr (None, addError (''could not parse '' @ quote (Literal tok) @ '' as float'') q)
             else andThen (nextToken q) (\<lambda>p1. Inr (Some (FloatLiteral tok), p1)))
          else if t = LPAREN then
            andThen (nextToken q) (\<lambda>p1.
            andThen (pe LOWEST p1) (\<lambda>(exp, p2).
            andThen (expectPeek RPAREN p2) (\<lambda>(ok, p3).
              if \<not> ok then Inr (None, p3) else Inr (exp, p3))))
          else if t = SUB \<or> t = ADD then parsePrefixOperatorExpression pe q
          else if t = TYPEOF then parseTypeofExpression pe q
          else
            Inr (None,
              if t \<noteq> EOF then addError (''no prefix parse function for '' @ t @ '' found'') q
              else q))"
    unfolding Let_def
    by (intro returns_if) (simp_all add: q A B P F parseBooleanLiteral_def split: option.splits)
qed

lemma parseExpression_loop_returns:
  "parser_inv p \<Longrightarrow> remaining p \<le> M \<Longrightarrow> remaining p < k \<Longrightarrow> callee_ok pe M \<Longrightarrow>
   returns p (parseExpression_loop pe k prec left p)"
proof (induction k arbitrary: p left)
  case 0
  then show ?case by simp
next
  case (Suc k)
  show ?case
  proof (cases "Type (peekToken p) \<noteq> SEMICOLON \<and> prec < peekPrecedence p
                 \<and> Type (peekToken p) \<noteq> EOF")
    case False
    then show ?thesis using Suc.prems by auto
  next
    case True
    then have pos: "0 < remaining p" by (intro remaining_pos_peek) simp
    have "returns p (andThen (nextToken p) (\<lambda>p1.
        andThen (parseInfixExpression pe (Some left) p1) (\<lambda>(e, p2).
          case e of
            None \<Rightarrow> Inr (None, p2)
          | Some leftExp' \<Rightarrow> parseExpression_loop pe k prec leftExp' p2)))"
    proof (rule returns_nextToken[OF Suc.prems(1)])
      fix q assume q: "parser_inv q" "remaining q \<le> remaining p - 1"
      then have lt: "remaining q < M" using pos Suc.prems(2) by simp
      show "returns q (andThen (parseInfixExpression pe (Some left) q) (\<lambda>(e, p2).
          case e of
            None \<Rightarrow> Inr (None, p2)
          | Some leftExp' \<Rightarrow> parseExpression_loop pe k prec leftExp' p2))"
      proof (rule returns_andThen)
        show "returns q (parseInfixExpression pe (Some left) q)"
          using q(1) lt Suc.prems(4) by (rule parseInfixExpression_returns)
      next
        fix v q' assume s: "stepped q q'"
        then have a: "parser_inv q'" "remaining q' \<le> remaining q" by (simp_all add: stepped_def)
        have "remaining q' \<le> M" "remaining q' < k" using a q pos Suc.prems(2,3) by simp_all
        then show "returns q' (case (v, q') of (e, p2) \<Rightarrow>
          (case e of
             None \<Rightarrow> Inr (None, p2)
           | Some leftExp' \<Rightarrow> parseExpression_loop pe k prec leftExp' p2))"
          using a(1) Suc.IH[OF a(1) _ _ Suc.prems(4)] by (cases v) simp_all
      qed
    qed
    then show ?thesis using True by simp
  qed
qed

lemma parseExpression_returns:
  "parser_inv p \<Longrightarrow> remaining p + 2 \<le> n \<Longrightarrow> returns p (parseExpression n prec p)"
proof (induction n arbitrary: p prec)
  case 0
  then show ?case by simp
next
  case (Suc n)
  have c: "callee_ok (parseExpression n) (remaining p)"
    unfolding callee_ok_def using Suc.IH Suc.prems(2) by simp
  have k: "remaining p < n" using Suc.prems(2) by simp
  have "returns p (andThen (parsePrefixExpression (parseExpression n) n p) (\<lambda>(leftExp, p1).
       case leftExp of
         None \<Rightarrow> Inr (None, p1)
       | Some e \<Rightarrow> parseExpression_loop (parseExpression n) n prec e p1))"
  proof (rule returns_andThen)
    show "returns p (parsePrefixExpression (parseExpression n) n p)"
      using Suc.prems(1) k c by (rule parsePrefixExpression_returns)
  next
    fix v q assume "stepped p q"
    then have a: "parser_inv q" "remaining q \<le> remaining p" by (simp_all add: stepped_def)
    then have "remaining q < n" using k by simp
    then show "returns q (case (v, q) of (leftExp, p1) \<Rightarrow>
       (case leftExp of
          None \<Rightarrow> Inr (None, p1)
        | Some e \<Rightarrow> parseExpression_loop (parseExpression n) n prec e p1))"
      using a c by (cases v) (simp_all add: parseExpression_loop_returns)
  qed
  then show ?case by simp
qed

lemma returns_stmt_callee:
  assumes "stmt_callee_ok ps M" "parser_inv p" "remaining p < M"
    and "\<And>v q. parser_inv q \<Longrightarrow> remaining q \<le> remaining p \<Longrightarrow> returns q (f (v, q))"
  shows "returns p (andThen (ps p) f)"
proof (rule returns_andThen)
  show "returns p (ps p)" using assms(1,2,3) by (simp add: stmt_callee_ok_def)
next
  fix v q assume "stepped p q"
  then show "returns q (f (v, q))" using assms(4) by (simp add: stepped_def)
qed

text \<open>An optional \<open>nextToken\<close>, as after a statement that may end with a semicolon.\<close>

lemma returns_optional_nextToken:
  assumes "parser_inv p"
    and "\<And>q. parser_inv q \<Longrightarrow> remaining q \<le> remaining p \<Longrightarrow> returns q (f q)"
  shows "returns p (andThen (if c then nextToken p else Inr p) f)"
proof (cases c)
  case True
  have "returns p (andThen (nextToken p) f)"
    using assms(1) by (rule returns_nextToken) (simp add: assms(2))
  then show ?thesis using True by simp
next
  case False
  then show ?thesis using assms by (simp add: andThen_def)
qed

lemma parseReturnStatement_returns:
  assumes "parser_inv p" "remaining p \<le> M" "callee_ok pe (Suc M)"
  shows "returns p (parseReturnStatement pe p)"
proof -
  note c = returns_callee[OF assms(3)]
  show ?thesis
    unfolding parseReturnStatement_def Let_def
    using assms(1,2)
    by (auto intro!: returns_nextToken returns_optional_nextToken c; linarith)
qed

lemma parseBreakStatement_returns:
  assumes "parser_inv p"
  shows "returns p (parseBreakStatement p)"
  unfolding parseBreakStatement_def Let_def
  using assms by (auto intro!: returns_nextToken)

lemma parseContinueStatement_returns:
  assumes "parser_inv p"
  shows "returns p (parseContinueStatement p)"
  unfolding parseContinueStatement_def Let_def
  using assms by (auto intro!: returns_nextToken)

lemma parseDeclarationStatement_returns:
  assumes "parser_inv p" "remaining p \<le> M" "callee_ok pe (Suc M)"
  shows "returns p (parseDeclarationStatement pe p)"
proof -
  note c = returns_callee[OF assms(3)]
  show ?thesis
    unfolding parseDeclarationStatement_def Let_def
    using assms(1,2)
    by (auto intro!: returns_nextToken returns_optional_nextToken returns_expectPeek c;
        linarith)
qed

lemma parseParameter_returns:
  assumes "parser_inv p"
  shows "returns p (parseParameter p)"
  unfolding parseParameter_def Let_def
  using assms by (auto intro!: returns_expectPeek)

lemma parseFunctionParameters_loop_returns:
  "parser_inv p \<Longrightarrow> remaining p < k \<Longrightarrow> returns p (parseFunctionParameters_loop k params p)"
proof (induction k arbitrary: p params)
  case 0
  then show ?case by simp
next
  case (Suc k)
  show ?case
  proof (cases "Type (peekToken p) = COMMA")
    case False
    then show ?thesis using Suc.prems by simp
  next
    case True
    then have pos: "0 < remaining p" by (intro remaining_pos_peek) (simp add: token_defs)
    have "returns p (andThen (nextToken p) (\<lambda>p1.
        andThen (nextToken p1) (\<lambda>p2.
        andThen (parseParameter p2) (\<lambda>(param, p3).
          parseFunctionParameters_loop k
            (case param of None \<Rightarrow> params | Some x \<Rightarrow> params @ [x]) p3))))"
    proof (intro returns_nextToken returns_andThen parseParameter_returns)
      show "parser_inv p" by (rule Suc.prems)
    next
      fix q q2 v q3
      assume "remaining q \<le> remaining p - 1" "remaining q2 \<le> remaining q - 1" "stepped q2 q3"
      then have "parser_inv q3" "remaining q3 < k"
        using pos Suc.prems(2) by (auto simp: stepped_def)
      then show "returns q3 (case (v, q3) of (param, p3) \<Rightarrow>
          parseFunctionParameters_loop k
            (case param of None \<Rightarrow> params | Some x \<Rightarrow> params @ [x]) p3)"
        by (simp add: Suc.IH)
    qed
    then show ?thesis using True by simp
  qed
qed

lemma parseFunctionParameters_returns:
  assumes "parser_inv p" "remaining p < k"
  shows "returns p (parseFunctionParameters k p)"
proof -
  have L: "returns q (andThen (parseFunctionParameters_loop k ps q) f)"
    if "parser_inv q" "remaining q < k"
      "\<And>v q'. parser_inv q' \<Longrightarrow> remaining q' \<le> remaining q \<Longrightarrow> returns q' (f (v, q'))"
    for q ps and f :: "Parameter list \<times> Parser \<Rightarrow> Parameter list result"
  proof (rule returns_andThen)
    show "returns q (parseFunctionParameters_loop k ps q)"
      using that(1,2) by (rule parseFunctionParameters_loop_returns)
  next
    fix v q' assume "stepped q q'"
    then show "returns q' (f (v, q'))" using that(3) by (simp add: stepped_def)
  qed
  have P: "returns q (andThen (parseParameter q) f)"
    if "parser_inv q"
      "\<And>v q'. parser_inv q' \<Longrightarrow> remaining q' \<le> remaining q \<Longrightarrow> returns q' (f (v, q'))"
    for q and f :: "Parameter option \<times> Parser \<Rightarrow> Parameter list result"
  proof (rule returns_andThen)
    show "returns q (parseParameter q)" using that(1) by (rule parseParameter_returns)
  next
    fix v q' assume "stepped q q'"
    then show "returns q' (f (v, q'))" using that(2) by (simp add: stepped_def)
  qed
  show ?thesis
    unfolding parseFunctionParameters_def
    using assms
    by (auto intro!: returns_nextToken returns_expectPeek L P; linarith)
qed

lemma returns_bind:
  assumes "returns p m"
    and "\<And>v q. parser_inv q \<Longrightarrow> remaining q \<le> remaining p \<Longrightarrow> returns q (f (v, q))"
  shows "returns p (andThen m f)"
proof (rule returns_andThen)
  show "returns p m" by (rule assms(1))
next
  fix v q assume "stepped p q"
  then show "returns q (f (v, q))" using assms(2) by (simp add: stepped_def)
qed

lemma not_EOF [simp]:
  "LBRACE \<noteq> EOF" "RPAREN \<noteq> EOF" "LPAREN \<noteq> EOF" "ELSE \<noteq> EOF" "IF \<noteq> EOF" "IDENT \<noteq> EOF"
  "COMMA \<noteq> EOF" "IN \<noteq> EOF" "ASSIGN \<noteq> EOF"
  by (simp_all add: token_defs)

lemmas EOF_not [simp] = not_EOF[THEN not_sym]

lemma parseBlockStatement_loop_returns:
  "parser_inv p \<Longrightarrow> remaining p < M \<Longrightarrow> remaining p < k \<Longrightarrow> stmt_callee_ok ps M \<Longrightarrow>
   returns p (parseBlockStatement_loop ps k stmts p)"
proof (induction k arbitrary: p stmts)
  case 0
  then show ?case by simp
next
  case (Suc k)
  show ?case
  proof (cases "\<not> curTokenIs RBRACE p \<and> \<not> curTokenIs EOF p")
    case False
    then show ?thesis using Suc.prems by auto
  next
    case True
    then have pos: "0 < remaining p"
      by (intro remaining_pos_cur) (simp add: curTokenIs_def)
    have "returns p (andThen (ps p) (\<lambda>(stmt, p1).
        andThen (nextToken p1) (\<lambda>p2.
          parseBlockStatement_loop ps k
            (case stmt of None \<Rightarrow> stmts | Some s \<Rightarrow> stmts @ [s]) p2)))"
    proof (rule returns_stmt_callee[OF Suc.prems(4,1,2)])
      fix v q assume q: "parser_inv q" "remaining q \<le> remaining p"
      have "returns q (andThen (nextToken q) (\<lambda>p2.
          parseBlockStatement_loop ps k
            (case v of None \<Rightarrow> stmts | Some s \<Rightarrow> stmts @ [s]) p2))"
      proof (rule returns_nextToken[OF q(1)])
        fix q2 assume q2: "parser_inv q2" "remaining q2 \<le> remaining q - 1"
        have "remaining q2 < M" "remaining q2 < k"
          using q2 q pos Suc.prems(2,3) by linarith+
        then show "returns q2 (parseBlockStatement_loop ps k
            (case v of None \<Rightarrow> stmts | Some s \<Rightarrow> stmts @ [s]) q2)"
          using q2(1) Suc.prems(4) by (intro Suc.IH)
      qed
      then show "returns q (case (v, q) of (stmt, p1) \<Rightarrow>
        andThen (nextToken p1) (\<lambda>p2.
          parseBlockStatement_loop ps k
            (case stmt of None \<Rightarrow> stmts | Some s \<Rightarrow> stmts @ [s]) p2))"
        by simp
    qed
    then show ?thesis using True by simp
  qed
qed

lemma parseBlockStatement_returns:
  assumes "parser_inv p" "Type (curToken p) \<noteq> EOF" "remaining p \<le> M" "remaining p \<le> k"
    "stmt_callee_ok ps M"
  shows "returns p (parseBlockStatement ps k p)"
proof -
  have pos: "0 < remaining p" using assms(2) by (rule remaining_pos_cur)
  have L: "returns q (andThen (parseBlockStatement_loop ps k [] q) f)"
    if "parser_inv q" "remaining q \<le> remaining p - 1"
      "\<And>v q'. parser_inv q' \<Longrightarrow> remaining q' \<le> remaining q \<Longrightarrow> returns q' (f (v, q'))"
    for q and f :: "Statement list \<times> Parser \<Rightarrow> BlockStatement result"
  proof (rule returns_bind)
    have "remaining q < M" "remaining q < k" using that(2) pos assms(3,4) by linarith+
    then show "returns q (parseBlockStatement_loop ps k [] q)"
      using that(1) assms(5) by (intro parseBlockStatement_loop_returns)
  qed (rule that(3))
  show ?thesis
    unfolding parseBlockStatement_def Let_def
    using assms(1)
    by (auto intro!: returns_nextToken L)
qed

lemmas returns_block = returns_bind[OF parseBlockStatement_returns]

lemma parseWhileStatement_returns:
  assumes "parser_inv p" "remaining p \<le> M" "remaining p \<le> k"
    "stmt_callee_ok ps M" "callee_ok pe (Suc M)"
  shows "returns p (parseWhileStatement ps pe k p)"
proof -
  note c = returns_callee[OF assms(5)]
  note b = returns_block[OF _ _ _ _ assms(4)]
  show ?thesis
    unfolding parseWhileStatement_def Let_def
    using assms(1,2,3)
    by (auto intro!: returns_nextToken returns_expectPeek c b; linarith)
qed

lemma parseLoopStatement_returns:
  assumes "parser_inv p" "remaining p \<le> M" "remaining p \<le> k" "stmt_callee_ok ps M"
  shows "returns p (parseLoopStatement ps k p)"
proof -
  note b = returns_block[OF _ _ _ _ assms(4)]
  show ?thesis
    unfolding parseLoopStatement_def Let_def
    using assms(1,2,3)
    by (auto intro!: returns_nextToken returns_expectPeek b; linarith)
qed

lemma parseForStatement_returns:
  assumes "parser_inv p" "remaining p \<le> M" "remaining p \<le> k"
    "stmt_callee_ok ps M" "callee_ok pe (Suc M)"
  shows "returns p (parseForStatement ps pe k p)"
proof -
  note c = returns_callee[OF assms(5)]
  note b = returns_block[OF _ _ _ _ assms(4)]
  show ?thesis
    unfolding parseForStatement_def Let_def
    using assms(1,2,3)
    by (auto intro!: returns_nextToken returns_expectPeek c b; linarith)
qed

lemmas returns_params = returns_bind[OF parseFunctionParameters_returns]

lemma parseFunctionStatement_returns:
  assumes "parser_inv p" "remaining p \<le> M" "remaining p < k" "stmt_callee_ok ps M"
  shows "returns p (parseFunctionStatement ps k p)"
proof -
  note b = returns_block[OF _ _ _ _ assms(4)]
  show ?thesis
    unfolding parseFunctionStatement_def Let_def
    using assms(1,2,3)
    by (auto intro!: returns_nextToken returns_expectPeek returns_params b; linarith)
qed

lemma parseIfBody_returns:
  assumes "parser_inv p" "Type (curToken p) \<noteq> EOF" "remaining p \<le> M" "remaining p \<le> k"
    "stmt_callee_ok ps M"
  shows "returns p (parseIfBody ps k p)"
proof -
  have pos: "0 < remaining p" using assms(2) by (rule remaining_pos_cur)
  note b = returns_block[OF _ _ _ _ assms(5)]
  note s = returns_stmt_callee[OF assms(5)]
  show ?thesis
    unfolding parseIfBody_def Let_def
    using assms(1,3,4) pos
    by (auto intro!: returns_nextToken returns_expectPeek s b split: option.splits; linarith)
qed

lemmas returns_ifBody = returns_bind[OF parseIfBody_returns]

lemma parseIfStatement_loop_returns:
  "parser_inv p \<Longrightarrow> remaining p \<le> M \<Longrightarrow> remaining p < k \<Longrightarrow> remaining p < j \<Longrightarrow>
   stmt_callee_ok ps M \<Longrightarrow> callee_ok pe (Suc M) \<Longrightarrow>
   returns p (parseIfStatement_loop ps pe k j tok cond thenBlock elseIfs p)"
proof (induction j arbitrary: p elseIfs)
  case 0
  then show ?case by simp
next
  case (Suc j)
  note c = returns_callee[OF Suc.prems(6)]
  note b = returns_ifBody[OF _ _ _ _ Suc.prems(5)]
  note ih = Suc.IH[OF _ _ _ _ Suc.prems(5,6)]
  show ?case
  proof (cases "Type (peekToken p) = ELSE")
    case False
    then show ?thesis using Suc.prems(1) by simp
  next
    case True
    then have pos: "0 < remaining p" by (intro remaining_pos_peek) simp
    show ?thesis
      using True Suc.prems(1,2,3,4) pos
      by (auto intro!: returns_nextToken returns_expectPeek c b ih split: option.splits;
          linarith)
  qed
qed

lemma parseIfStatement_returns:
  assumes "parser_inv p" "remaining p \<le> M" "remaining p < k"
    "stmt_callee_ok ps M" "callee_ok pe (Suc M)"
  shows "returns p (parseIfStatement ps pe k p)"
proof -
  note c = returns_callee[OF assms(5)]
  note b = returns_ifBody[OF _ _ _ _ assms(4)]
  note l = parseIfStatement_loop_returns[OF _ _ _ _ assms(4,5)]
  show ?thesis
    unfolding parseIfStatement_def Let_def
    using assms(1,2,3)
    by (auto intro!: returns_nextToken returns_expectPeek c b l split: option.splits; linarith)
qed

lemma returns_asStatement: "returns p r \<Longrightarrow> returns p (asStatement ty r)"
  unfolding asStatement_def by (rule returns_bind) simp_all

lemma returns_always: "returns p r \<Longrightarrow> returns p (always r)"
  unfolding always_def by (rule returns_bind) simp_all

lemma parseStatement_returns:
  "parser_inv p \<Longrightarrow> remaining p + 3 \<le> n \<Longrightarrow> returns p (parseStatement n p)"
proof (induction n arbitrary: p)
  case 0
  then show ?case by simp
next
  case (Suc n)
  let ?M = "remaining p"
  have cs: "stmt_callee_ok (parseStatement n) ?M"
    unfolding stmt_callee_ok_def using Suc.IH Suc.prems(2) by simp
  have ce: "callee_ok (parseExpression n) (Suc ?M)"
    unfolding callee_ok_def using Suc.prems(2) by (simp add: parseExpression_returns)
  have k: "remaining p < n" using Suc.prems(2) by simp
  have "returns p (andThen (skipWhitespaceTokens n p) (\<lambda>p.
       let t = Type (curToken p) in
       if t = IF then
         asStatement IfStatementPtr (parseIfStatement (parseStatement n) (parseExpression n) n p)
       else if t = RETURN then always (parseReturnStatement (parseExpression n) p)
       else if t = BREAK then always (parseBreakStatement p)
       else if t = CONTINUE then always (parseContinueStatement p)
       else if t = WHILE then
         asStatement WhileStatementPtr
           (parseWhileStatement (parseStatement n) (parseExpression n) n p)
       else if t = LOOP then
         asStatement LoopStatementPtr (parseLoopStatement (parseStatement n) n p)
       else if t = FOR then
         asStatement ForStatementPtr
           (parseForStatement (parseStatement n) (parseExpression n) n p)
       else if t = FUNC then
         asStatement FunctionStatementPtr (parseFunctionStatement (parseStatement n) n p)
       else if t = TYPE_T \<or> t = VOID then
         (if Type (peekToken p) = IDENT then
            (if Type (peekPeek p) = LPAREN then
               asStatement FunctionStatementPtr (parseFunctionStatement (parseStatement n) n p)
             else if Type (peekPeek p) = ASSIGN then
               asStatement VariableDeclarationPtr
                 (parseDeclarationStatement (parseExpression n) p)
             else
               asStatement VariableDeclarationPtr
                 (parseDeclarationStatement (parseExpression n) p))
          else Inr (None, p))
       else if t = RBRACE \<or> t = SEMICOLON \<or> t = EOF then Inr (None, p)
       else
         andThen (parseExpression n LOWEST p) (\<lambda>(expr, p1).
           if expr \<noteq> None then
             (let stmt = ExpressionStatement (curToken p1) expr in
              andThen (if Type (peekToken p1) = SEMICOLON then nextToken p1 else Inr p1) (\<lambda>p2.
                Inr (Some stmt, p2)))
           else
             Inr (None,
               if Type (curToken p1) \<noteq> EOF then
                 addError (''unexpected token: '' @ Literal (curToken p1)) p1
               else p1))))"
    using Suc.prems(1) k
  proof (rule returns_skipWhitespaceTokens)
    fix q assume q: "parser_inv q" "remaining q \<le> remaining p"
    then have qk: "remaining q < n" "remaining q \<le> n" using k by simp_all
    note c = returns_callee[OF ce]
    have D: "returns q (andThen (parseExpression n LOWEST q) (\<lambda>(expr, p1).
           if expr \<noteq> None then
             (let stmt = ExpressionStatement (curToken p1) expr in
              andThen (if Type (peekToken p1) = SEMICOLON then nextToken p1 else Inr p1) (\<lambda>p2.
                Inr (Some stmt, p2)))
           else
             Inr (None,
               if Type (curToken p1) \<noteq> EOF then
                 addError (''unexpected token: '' @ Literal (curToken p1)) p1
               else p1)))"
      using q by (auto intro!: c returns_nextToken simp: Let_def)
    show "returns q (
       let t = Type (curToken q) in
       if t = IF then
         asStatement IfStatementPtr (parseIfStatement (parseStatement n) (parseExpression n) n q)
       else if t = RETURN then always (parseReturnStatement (parseExpression n) q)
       else if t = BREAK then always (parseBreakStatement q)
       else if t = CONTINUE then always (parseContinueStatement q)
       else if t = WHILE then
         asStatement WhileStatementPtr
           (parseWhileStatement (parseStatement n) (parseExpression n) n q)
       else if t = LOOP then
         asStatement LoopStatementPtr (parseLoopStatement (parseStatement n) n q)
       else if t = FOR then
         asStatement ForStatementPtr
           (parseForStatement (parseStatement n) (parseExpression n) n q)
       else if t = FUNC then
         asStatement FunctionStatementPtr (parseFunctionStatement (parseStatement n) n q)
       else if t = TYPE_T \<or> t = VOID then
         (if Type (peekToken q) = IDENT then
            (if Type (peekPeek q) = LPAREN then
               asStatement FunctionStatementPtr (parseFunctionStatement (parseStatement n) n q)
             else if Type (peekPeek q) = ASSIGN then
               asStatement VariableDeclarationPtr
                 (parseDeclarationStatement (parseExpression n) q)
             else
               asStatement VariableDeclarationPtr
                 (parseDeclarationStatement (parseExpression n) q))
          else Inr (None, q))
       else if t = RBRACE \<or> t = SEMICOLON \<or> t = EOF then Inr (None, q)
       else
         andThen (parseExpression n LOWEST q) (\<lambda>(expr, p1).
           if expr \<noteq> None then
             (let stmt = ExpressionStatement (curToken p1) expr in
              andThen (if Type (peekToken p1) = SEMICOLON then nextToken p1 else Inr p1) (\<lambda>p2.
                Inr (Some stmt, p2)))
           else
             Inr (None,
               if Type (curToken p1) \<noteq> EOF then
                 addError (''unexpected token: '' @ Literal (curToken p1)) p1
               else p1)))"
      unfolding Let_def
      by (intro returns_if returns_asStatement returns_always D[unfolded Let_def]
            parseIfStatement_returns[OF _ _ _ cs ce] parseReturnStatement_returns[OF _ _ ce]
            parseBreakStatement_returns parseContinueStatement_returns
            parseWhileStatement_returns[OF _ _ _ cs ce] parseLoopStatement_returns[OF _ _ _ cs]
            parseForStatement_returns[OF _ _ _ cs ce] parseFunctionStatement_returns[OF _ _ _ cs]
            parseDeclarationStatement_returns[OF _ _ ce])
         (simp_all add: q qk)
  qed
  then show ?case by simp
qed

lemma ParseProgram_loop_returns:
  "parser_inv p \<Longrightarrow> remaining p + 1 < k \<Longrightarrow> remaining p < M \<Longrightarrow> stmt_callee_ok ps M \<Longrightarrow>
   returns p (ParseProgram_loop ps k stmts p)"
proof (induction k arbitrary: p stmts)
  case 0
  then show ?case by simp
next
  case (Suc k)
  note s = returns_stmt_callee[OF Suc.prems(4)]
  note ih = Suc.IH[OF _ _ _ Suc.prems(4)]
  show ?case
  proof (cases "Type (curToken p) \<noteq> EOF")
    case False
    then show ?thesis using Suc.prems(1) by simp
  next
    case True
    then have pos: "0 < remaining p" by (rule remaining_pos_cur)
    have "returns p (andThen (skipWhitespaceTokens k p) (\<lambda>p1.
          if Type (curToken p1) = EOF then Inr (stmts, p1)
          else
            andThen (ps p1) (\<lambda>(stmt, p2).
            andThen (nextToken p2) (\<lambda>p3.
              ParseProgram_loop ps k
                (case stmt of None \<Rightarrow> stmts | Some s \<Rightarrow> stmts @ [s]) p3))))"
    proof (rule returns_skipWhitespaceTokens[OF Suc.prems(1)])
      show "remaining p < k" using Suc.prems(2) by simp
    next
      fix q assume q: "parser_inv q" "remaining q \<le> remaining p"
      show "returns q (if Type (curToken q) = EOF then Inr (stmts, q)
          else
            andThen (ps q) (\<lambda>(stmt, p2).
            andThen (nextToken p2) (\<lambda>p3.
              ParseProgram_loop ps k
                (case stmt of None \<Rightarrow> stmts | Some s \<Rightarrow> stmts @ [s]) p3)))"
        using q pos Suc.prems(2,3)
        by (auto intro!: s returns_nextToken ih; linarith)
    qed
    then show ?thesis using True by simp
  qed
qed

lemma ParseProgram_returns:
  assumes "parser_inv p" "remaining p + 3 \<le> n"
  shows "returns p (ParseProgram n p)"
proof -
  have cs: "stmt_callee_ok (parseStatement n) (Suc (remaining p))"
    unfolding stmt_callee_ok_def using assms(2) by (simp add: parseStatement_returns)
  have "returns p (ParseProgram_loop (parseStatement n) n [] p)"
    using assms(1) _ _ cs by (rule ParseProgram_loop_returns) (use assms(2) in simp_all)
  then show ?thesis unfolding ParseProgram_def by (rule returns_bind) simp_all
qed

lemma nextToken_lexer:
  assumes "parser_inv p"
  shows "\<exists>q. nextToken p = Inr q \<and> parser_inv q \<and> errors q = errors p \<and>
           input (lexer q) = input (lexer p)"
proof -
  have inv: "lexer_inv (lexer p)" using assms by (simp add: parser_inv_def)
  obtain tok l' where nt: "NextToken (lexer p) = Inr (tok, l')" and inv': "lexer_inv l'"
      and inp: "input l' = input (lexer p)"
    using NextToken_ok[OF inv] by blast
  then show ?thesis by (simp add: nextToken_def parser_inv_def)
qed

lemma remaining_bound: "remaining p \<le> 7 * length (input (lexer p)) + 6"
proof -
  have "weight (curToken p) \<le> 1" "weight (peekToken p) \<le> 1" "weight (peekPeek p) \<le> 1"
    by (rule weight_le)+
  then show ?thesis by (simp add: remaining_def)
qed

lemma NewParser_returns:
  assumes "lexer_inv l"
  shows "\<exists>p. NewParser l = Inr p \<and> parser_inv p \<and> errors p = [] \<and>
           remaining p \<le> 7 * length (input l) + 6"
proof -
  let ?z = "\<lparr>Type = [], Literal = []\<rparr>"
  let ?p = "\<lparr>lexer = l, curToken = ?z, peekToken = ?z, peekPeek = ?z, errors = []\<rparr>"
  have i0: "parser_inv ?p" using assms by (simp add: parser_inv_def)
  obtain p1 where n1: "nextToken ?p = Inr p1" and a1: "parser_inv p1" "errors p1 = errors ?p"
      "input (lexer p1) = input (lexer ?p)"
    using nextToken_lexer[OF i0] by blast
  obtain p2 where n2: "nextToken p1 = Inr p2" and a2: "parser_inv p2" "errors p2 = errors p1"
      "input (lexer p2) = input (lexer p1)"
    using nextToken_lexer[OF a1(1)] by blast
  obtain p3 where n3: "nextToken p2 = Inr p3" and a3: "parser_inv p3" "errors p3 = errors p2"
      "input (lexer p3) = input (lexer p2)"
    using nextToken_lexer[OF a2(1)] by blast
  have "NewParser l = Inr p3" by (simp add: NewParser_def n1 n2 n3)
  moreover have "remaining p3 \<le> 7 * length (input l) + 6"
    using remaining_bound[of p3] a1 a2 a3 by simp
  ultimately show ?thesis using a1 a2 a3 by simp
qed

lemma parse_run:
  assumes "7 * length s + 9 \<le> n"
  shows "\<exists>p program p'. NewParser (NewLexer s) = Inr p \<and> errors p = [] \<and>
           ParseProgram n p = Inr (program, p') \<and> parse n s = Inr (program, GetErrors p')"
proof -
  obtain p where np: "NewParser (NewLexer s) = Inr p" and a: "parser_inv p" "errors p = []"
      "remaining p \<le> 7 * length (input (NewLexer s)) + 6"
    using NewParser_returns[OF lexer_inv_NewLexer(1), of s] by blast
  have "remaining p + 3 \<le> n" using a(3) assms by (simp add: lexer_inv_NewLexer)
  with a(1) have "returns p (ParseProgram n p)" by (rule ParseProgram_returns)
  then obtain program p' where "ParseProgram n p = Inr (program, p')"
    by (auto simp: returns_def)
  then show ?thesis using np a(2) by (simp add: parse_def)
qed

text \<open>
  Claim C6. With fuel \<open>7 * length s + 9\<close> or more, the parse of any source \<open>s\<close> returns:
  no loop and no recursion of the parser goes on for ever. The reason is the measure
  \<open>remaining\<close>: every \<open>nextToken\<close> makes it smaller unless it is 0, it is not 0 while the
  current or the next token is not \<open>EOF\<close>, and every iteration of every loop of the parser
  calls \<open>nextToken\<close> in such a state.
\<close>

theorem parse_terminates:
  "(\<forall>s n. 7 * length s + 9 \<le> n \<longrightarrow> (\<exists>program errs. parse n s = Inr (program, errs))) \<and>
   (\<forall>p. parser_inv p \<longrightarrow>
      (\<exists>q. nextToken p = Inr q \<and> parser_inv q \<and> remaining q \<le> remaining p - 1)) \<and>
   (\<forall>p. Type (curToken p) \<noteq> EOF \<or> Type (peekToken p) \<noteq> EOF \<longrightarrow> 0 < remaining p)"
proof (intro conjI allI impI)
  fix s :: string and n :: nat assume "7 * length s + 9 \<le> n"
  from parse_run[OF this] show "\<exists>program errs. parse n s = Inr (program, errs)" by blast
next
  fix p assume "parser_inv p"
  from nextToken_returns[OF this]
  show "\<exists>q. nextToken p = Inr q \<and> parser_inv q \<and> remaining q \<le> remaining p - 1" by blast
next
  fix p :: Parser assume "Type (curToken p) \<noteq> EOF \<or> Type (peekToken p) \<noteq> EOF"
  then show "0 < remaining p" using remaining_pos_cur remaining_pos_peek by blast
qed

theorem parse_terminates_witness:
  "(\<exists>program errs. parse 200 ''if (a {1} else'' = Inr (program, errs)) \<and>
   (\<exists>q. nextToken \<lparr>lexer = NewLexer ''a'', curToken = \<lparr>Type = IF, Literal = ''if''\<rparr>,
                    peekToken = \<lparr>Type = EOF, Literal = []\<rparr>,
                    peekPeek = \<lparr>Type = EOF, Literal = []\<rparr>, errors = []\<rparr> = Inr q \<and>
        remaining q \<le> 7)"
proof -
  let ?p = "\<lparr>lexer = NewLexer ''a'', curToken = \<lparr>Type = IF, Literal = ''if''\<rparr>,
                    peekToken = \<lparr>Type = EOF, Literal = []\<rparr>,
                    peekPeek = \<lparr>Type = EOF, Literal = []\<rparr>, errors = []\<rparr>"
  have i: "parser_inv ?p" by (simp add: parser_inv_def lexer_inv_NewLexer)
  have r: "remaining ?p = 8"
    by (simp add: remaining_def weight_def lexer_inv_NewLexer)
  have l: "7 * length ''if (a {1} else'' + 9 \<le> (200::nat)" by simp
  have a: "\<exists>program errs. parse 200 ''if (a {1} else'' = Inr (program, errs)"
    using parse_terminates l by blast
  have b: "\<exists>q. nextToken ?p = Inr q \<and> parser_inv q \<and> remaining q \<le> remaining ?p - 1"
    using parse_terminates i by blast
  show ?thesis using a b unfolding r by auto
qed







section \<open>Dispatch of declarations, and absent children\<close>

text \<open>
  Claim C2. At a token of kind \<open>TYPE\<close> or \<open>VOID\<close>, \<open>parseStatement\<close> chooses by the kinds
  of the next two tokens alone: an identifier and \<open>(\<close> give \<open>parseFunctionStatement\<close>, an
  identifier and anything else \<open>parseDeclarationStatement\<close>. \<open>int foo() {}\<close> is a function
  without parameters, \<open>int foo = 1;\<close> a variable declaration, and \<open>int foo\<close> records the one
  error of \<open>expectPeek\<close> about the missing \<open>=\<close>.
\<close>

theorem statement_dispatch:
  "(\<forall>n p. Type (curToken p) = TYPE_T \<or> Type (curToken p) = VOID \<longrightarrow>
      parseStatement (Suc (Suc n)) p =
        (if Type (peekToken p) = IDENT then
           (if Type (peekPeek p) = LPAREN then
              asStatement FunctionStatementPtr
                (parseFunctionStatement (parseStatement (Suc n)) (Suc n) p)
            else
              asStatement VariableDeclarationPtr
                (parseDeclarationStatement (parseExpression (Suc n)) p))
         else Inr (None, p))) \<and>
   parse 20 ''int foo() {}'' =
     Inr (Program
       [FunctionStatement \<lparr>Type = TYPE_T, Literal = ''int''\<rparr>
         (Some (Identifier \<lparr>Type = IDENT, Literal = ''foo''\<rparr> ''foo''))
         []
         \<lparr>Type = TYPE_T, Literal = ''int''\<rparr>
         (Some (BlockStatement \<lparr>Type = LBRACE, Literal = ''{''\<rparr> []))],
      []) \<and>
   parse 20 ''int foo = 1;'' =
     Inr (Program
       [VariableDeclaration \<lparr>Type = TYPE_T, Literal = ''int''\<rparr>
         (Some (Identifier \<lparr>Type = IDENT, Literal = ''foo''\<rparr> ''foo''))
         (Some (IntegerLiteral \<lparr>Type = INT_T, Literal = ''1''\<rparr> 1))],
      []) \<and>
   parse 20 ''int foo'' =
     Inr (Program [NilPointer VariableDeclarationPtr],
          [''expected next token to be =, got EOF instead''])"
proof -
  have d: "parseStatement (Suc (Suc n)) p =
        (if Type (peekToken p) = IDENT then
           (if Type (peekPeek p) = LPAREN then
              asStatement FunctionStatementPtr
                (parseFunctionStatement (parseStatement (Suc n)) (Suc n) p)
            else
              asStatement VariableDeclarationPtr
                (parseDeclarationStatement (parseExpression (Suc n)) p))
         else Inr (None, p))"
    if "Type (curToken p) = TYPE_T \<or> Type (curToken p) = VOID" for n p
  proof -
    have t: "Type (curToken p) \<noteq> ILLEGAL" "Type (curToken p) \<noteq> IF"
      "Type (curToken p) \<noteq> RETURN" "Type (curToken p) \<noteq> BREAK"
      "Type (curToken p) \<noteq> CONTINUE" "Type (curToken p) \<noteq> WHILE"
      "Type (curToken p) \<noteq> LOOP" "Type (curToken p) \<noteq> FOR" "Type (curToken p) \<noteq> FUNC"
      using that by (auto simp: token_defs)
    have s: "skipWhitespaceTokens (Suc n) p = Inr p" using t(1) by simp
    show ?thesis
      unfolding parseStatement.simps s andThen_Inr Let_def
      using t that by simp
  qed
  have a: "parse 20 ''int foo() {}'' =
     Inr (Program
       [FunctionStatement \<lparr>Type = TYPE_T, Literal = ''int''\<rparr>
         (Some (Identifier \<lparr>Type = IDENT, Literal = ''foo''\<rparr> ''foo''))
         []
         \<lparr>Type = TYPE_T, Literal = ''int''\<rparr>
         (Some (BlockStatement \<lparr>Type = LBRACE, Literal = ''{''\<rparr> []))],
      [])"
    by code_simp
  have b: "parse 20 ''int foo = 1;'' =
     Inr (Program
       [VariableDeclaration \<lparr>Type = TYPE_T, Literal = ''int''\<rparr>
         (Some (Identifier \<lparr>Type = IDENT, Literal = ''foo''\<rparr> ''foo''))
         (Some (IntegerLiteral \<lparr>Type = INT_T, Literal = ''1''\<rparr> 1))],
      [])"
    by code_simp
  have c: "parse 20 ''int foo'' =
     Inr (Program [NilPointer VariableDeclarationPtr],
          [''expected next token to be =, got EOF instead''])"
    by code_simp
  show ?thesis using d a b c by blast
qed

theorem statement_dispatch_witness:
  "parseStatement 2 \<lparr>lexer = NewLexer [], curToken = \<lparr>Type = TYPE_T, Literal = ''int''\<rparr>,
                     peekToken = \<lparr>Type = EOF, Literal = []\<rparr>,
                     peekPeek = \<lparr>Type = EOF, Literal = []\<rparr>, errors = []\<rparr>
     = Inr (None, \<lparr>lexer = NewLexer [], curToken = \<lparr>Type = TYPE_T, Literal = ''int''\<rparr>,
                     peekToken = \<lparr>Type = EOF, Literal = []\<rparr>,
                     peekPeek = \<lparr>Type = EOF, Literal = []\<rparr>, errors = []\<rparr>)"
proof -
  let ?p = "\<lparr>lexer = NewLexer [], curToken = \<lparr>Type = TYPE_T, Literal = ''int''\<rparr>,
                     peekToken = \<lparr>Type = EOF, Literal = []\<rparr>,
                     peekPeek = \<lparr>Type = EOF, Literal = []\<rparr>, errors = []\<rparr>"
  have h: "Type (curToken ?p) = TYPE_T \<or> Type (curToken ?p) = VOID" by simp
  note g = statement_dispatch[THEN conjunct1, rule_format, OF h, of 0]
  have "parseStatement (Suc (Suc 0)) ?p = Inr (None, ?p)"
    by (subst g) (simp add: token_defs del: parseStatement.simps)
  then show ?thesis by (simp only: numeral_2_eq_2)
qed

text \<open>
  Claim C1 does not hold of the code. \<open>parsePrefixOperatorExpression\<close>,
  \<open>parseInfixExpression\<close> and \<open>parseDeclarationStatement\<close> store the result of
  \<open>parseExpression\<close> without testing it for nil, as \<open>parseWhileStatement\<close>,
  \<open>parseForStatement\<close> and \<open>parseIfStatement\<close> do: the sources \<open>-\<close>, \<open>1 +\<close> and \<open>int x = ;\<close>
  give a \<open>PrefixExpression\<close> and an \<open>InfixExpression\<close> whose \<open>Right\<close> is absent and a
  \<open>VariableDeclaration\<close> whose \<open>Value\<close> is absent.
\<close>

theorem absent_children_returned:
  "parseExpressionSource 10 ''-'' =
     Inr (Some (PrefixExpression \<lparr>Type = SUB, Literal = ''-''\<rparr> ''-'' None), []) \<and>
   parseExpressionSource 10 ''1 +'' =
     Inr (Some (InfixExpression \<lparr>Type = ADD, Literal = ''+''\<rparr> ''+''
                  (Some (IntegerLiteral \<lparr>Type = INT_T, Literal = ''1''\<rparr> 1)) None), []) \<and>
   parse 20 ''int x = ;'' =
     Inr (Program
       [VariableDeclaration \<lparr>Type = TYPE_T, Literal = ''int''\<rparr>
         (Some (Identifier \<lparr>Type = IDENT, Literal = ''x''\<rparr> ''x'')) None],
      [''no prefix parse function for ; found''])"
  by code_simp

end
